theory Spec2Isabelle
  imports Main
begin

section \<open>Data model\<close>

text \<open>
  The program is \<^verbatim>\<open>src/tabarules/processing.py\<close>. A pandas Series is a list of cells; a
  cell of a numeric column is \<open>Some v\<close> or \<open>None\<close> for NaN, a cell of an object column
  is \<open>Some s\<close> for a Python \<^verbatim>\<open>str\<close> or \<open>None\<close> for a missing entry. Every Series carries
  the default index \<open>0, 1, ..., len - 1\<close>, which is what \<^verbatim>\<open>series[i]\<close> for
  \<^verbatim>\<open>i in range(series.shape[0])\<close> in the source presupposes. An output cell is
  \<open>Some label\<close> or \<open>None\<close> for \<^verbatim>\<open>np.nan\<close>.

  The element type of a numeric column is a parameter \<open>'a\<close> with a linear order
  (\<^verbatim>\<open>int64\<close> or the non-NaN values of \<^verbatim>\<open>float64\<close>), and Python's \<^verbatim>\<open>str\<close> on that type is
  the parameter \<open>str\<close> of the labelers.

  The exceptions the code can raise are values of \<open>error\<close>; a function that can raise
  returns \<open>error + result\<close>.
\<close>

datatype error = KeyError | IndexError | ValueError | NameError

text \<open>\<^verbatim>\<open>series[not_nas[0]]\<close>: the cells that are not NaN, in row order.\<close>

definition not_na :: "'a option list \<Rightarrow> 'a list" where
  "not_na series = map the (filter (\<lambda>c. c \<noteq> None) series)"

text \<open>
  \<^verbatim>\<open>series_sorted[cutoff_val_ind]\<close>: a list of labels looked up in a Series with the
  index \<open>0..len-1\<close> (after \<^verbatim>\<open>reset_index(drop = True)\<close>). The lookup is by label, so
  label \<open>k\<close> is the element at 0-based position \<open>k\<close>; pandas raises \<^verbatim>\<open>KeyError\<close> when a
  label is not in the index.
\<close>

definition getitem_labels :: "'a list \<Rightarrow> nat list \<Rightarrow> error + 'a list" where
  "getitem_labels xs ks =
     (if list_all (\<lambda>k. k < length xs) ks then Inr (map (\<lambda>k. xs ! k) ks) else Inl KeyError)"

text \<open>
  \<^verbatim>\<open>cutoff_vals[k]\<close> on a numpy array with a Python integer: a negative \<open>k\<close> counts from
  the end, and an index outside \<open>-len .. len-1\<close> raises \<^verbatim>\<open>IndexError\<close>.
\<close>

definition array_getitem :: "'a list \<Rightarrow> int \<Rightarrow> error + 'a" where
  "array_getitem xs k =
     (if 0 \<le> k \<and> k < int (length xs) then Inr (xs ! nat k)
      else if k < 0 \<and> - int (length xs) \<le> k then Inr (xs ! nat (int (length xs) + k))
      else Inl IndexError)"

section \<open>The index arithmetic of line 44\<close>

text \<open>
  \<^verbatim>\<open>ceil((i+1) / cutoffs * len_series)\<close> divides two Python integers (a correctly
  rounded binary64 quotient), multiplies the quotient by \<^verbatim>\<open>len_series\<close> converted to
  binary64 (a correctly rounded product) and takes \<^verbatim>\<open>math.ceil\<close>, which is exact. A
  positive finite binary64 value is the pair \<open>(m, e)\<close> standing for \<open>m * 2 ^ e\<close>; all
  roundings are to 53 significant bits, ties to even. The exponent range of binary64 is
  not modelled: the operands here are a row count and a bin count, far from overflow
  and underflow.
\<close>

type_synonym binary64 = "nat \<times> int"

fun bit_length :: "nat \<Rightarrow> nat" where
  "bit_length n = (if n = 0 then 0 else Suc (bit_length (n div 2)))"

declare bit_length.simps [simp del]

text \<open>The integer nearest to \<open>a / b\<close>, ties to the even one.\<close>

definition round_half_even :: "nat \<Rightarrow> nat \<Rightarrow> nat" where
  "round_half_even a b =
     (let q = a div b; r = a mod b
      in if 2 * r < b then q else if b < 2 * r then q + 1 else if even q then q else q + 1)"

definition round53 :: "nat \<Rightarrow> int \<Rightarrow> binary64" where
  "round53 m e =
     (let l = bit_length m
      in if l \<le> 53 then (m, e)
         else (round_half_even m (2 ^ (l - 53)), e + int (l - 53)))"

definition float_of_int :: "nat \<Rightarrow> binary64" where
  "float_of_int n = round53 n 0"

text \<open>
  \<^verbatim>\<open>a / b\<close> for positive Python integers. With \<open>d\<close> the difference of the bit lengths
  the quotient lies between \<open>2 ^ (d - 1)\<close> and \<open>2 ^ (d + 1)\<close>; \<open>s\<close> scales it into
  \<open>[2 ^ 52, 2 ^ 53)\<close>, where rounding to an integer is rounding to 53 bits. The
  comprehension of line 44 runs only for \<open>cutoffs \<ge> 2\<close>, so \<open>b\<close> is never zero there.
\<close>

definition true_divide :: "nat \<Rightarrow> nat \<Rightarrow> binary64" where
  "true_divide a b =
     (if a = 0 then (0, 0)
      else
        (let d = int (bit_length a) - int (bit_length b);
             s = (if b * 2 ^ nat d \<le> a * 2 ^ nat (- d) then 52 - d else 53 - d)
         in (round_half_even (a * 2 ^ nat s) (b * 2 ^ nat (- s)), - s)))"

definition float_mul :: "binary64 \<Rightarrow> binary64 \<Rightarrow> binary64" where
  "float_mul x y = round53 (fst x * fst y) (snd x + snd y)"

definition ceil :: "binary64 \<Rightarrow> nat" where
  "ceil x =
     (if 0 \<le> snd x then fst x * 2 ^ nat (snd x)
      else (fst x + 2 ^ nat (- snd x) - 1) div 2 ^ nat (- snd x))"

text \<open>
  Line 44: \<^verbatim>\<open>[ceil((i+1) / cutoffs * len_series) for i in range(cutoffs-1)]\<close>;
  \<^verbatim>\<open>range\<close> of a number below 1 is empty.
\<close>

definition cutoff_val_ind :: "int \<Rightarrow> nat \<Rightarrow> nat list" where
  "cutoff_val_ind cutoffs len_series =
     map (\<lambda>i. ceil (float_mul (true_divide (i + 1) (nat cutoffs)) (float_of_int len_series)))
       [0..<nat (cutoffs - 1)]"

section \<open>The continuous labeler: \<^verbatim>\<open>float_processer\<close>\<close>

text \<open>Lines 39 to 45: the cutoff values, or the \<^verbatim>\<open>KeyError\<close> of the lookup.\<close>

definition cutoff_vals :: "'a::linorder option list \<Rightarrow> int \<Rightarrow> error + 'a list" where
  "cutoff_vals series cutoffs =
     (let not_na_series = not_na series;
          len_series = length not_na_series;
          series_sorted = sort not_na_series
      in getitem_labels series_sorted (cutoff_val_ind cutoffs len_series))"

text \<open>
  Lines 48 and 49: one \<^verbatim>\<open>lessthan\<close> label per cutoff, then the \<^verbatim>\<open>morethan\<close> label of
  \<^verbatim>\<open>cutoff_vals[cutoffs-2]\<close>, which raises \<^verbatim>\<open>IndexError\<close> on an empty array.
\<close>

definition str_labels :: "('a \<Rightarrow> string) \<Rightarrow> string \<Rightarrow> 'a list \<Rightarrow> int \<Rightarrow> error + string list" where
  "str_labels str title cvs cutoffs =
     (case array_getitem cvs (cutoffs - 2) of
        Inl e \<Rightarrow> Inl e
      | Inr v \<Rightarrow> Inr (map (\<lambda>val. title @ ''_lessthan_'' @ str val) cvs
                      @ [title @ ''_morethan_'' @ str v]))"

text \<open>\<^verbatim>\<open>series[i] <= cutoff_vals[j]\<close>: a comparison with NaN is false.\<close>

fun cell_le :: "'a::linorder option \<Rightarrow> 'a \<Rightarrow> bool" where
  "cell_le None c = False"
| "cell_le (Some x) c = (x \<le> c)"

text \<open>
  Lines 65 to 71, the loop over \<open>j\<close> from the given position: the positions in
  \<^verbatim>\<open>str_labels\<close> of what it appends to \<^verbatim>\<open>output_list\<close> (one position, the bucket of the
  cell, or none when there is no cutoff to loop over).
\<close>

function scan_cutoffs :: "'a::linorder option \<Rightarrow> 'a list \<Rightarrow> nat \<Rightarrow> nat list" where
  "scan_cutoffs x cvs j =
     (if j < length cvs then
        (if cell_le x (cvs ! j) then [j]
         else if j = length cvs - 1 then [length cvs]
         else scan_cutoffs x cvs (j + 1))
      else [])"
  by pat_completeness auto
termination
  by (relation "measure (\<lambda>(x, cvs, j). length cvs - j)") auto

declare scan_cutoffs.simps [simp del]

text \<open>
  Lines 58 to 71, one pass of the loop over the rows: a NaN cell is handled by the two
  recognised values of \<^verbatim>\<open>na_action\<close> (\<^verbatim>\<open>continue\<close>); with any other value control falls
  through to the scan of the cutoffs.
\<close>

definition float_row :: "string \<Rightarrow> string \<Rightarrow> 'a::linorder list \<Rightarrow> string list \<Rightarrow> 'a option \<Rightarrow> string option list" where
  "float_row title na_action cvs labels x =
     (if x = None \<and> na_action = ''label'' then [Some (title @ ''_is_na'')]
      else if x = None \<and> na_action = ''return_na'' then [None]
      else map (\<lambda>k. Some (labels ! k)) (scan_cutoffs x cvs 0))"

definition float_processer ::
  "('a::linorder \<Rightarrow> string) \<Rightarrow> 'a option list \<Rightarrow> string \<Rightarrow> int \<Rightarrow> string \<Rightarrow> error + string option list" where
  "float_processer str series title cutoffs na_action =
     (case cutoff_vals series cutoffs of
        Inl e \<Rightarrow> Inl e
      | Inr cvs \<Rightarrow>
          (case str_labels str title cvs cutoffs of
             Inl e \<Rightarrow> Inl e
           | Inr labels \<Rightarrow> Inr (concat (map (float_row title na_action cvs labels) series))))"

text \<open>Python's \<^verbatim>\<open>str\<close> on an integer (the elements of an \<^verbatim>\<open>int64\<close> column).\<close>

fun str_nat :: "nat \<Rightarrow> string" where
  "str_nat n = (if n < 10 then [''0123456789'' ! n] else str_nat (n div 10) @ [''0123456789'' ! (n mod 10)])"

declare str_nat.simps [simp del]

definition str_int :: "int \<Rightarrow> string" where
  "str_int k = (if k < 0 then ''-'' @ str_nat (nat (- k)) else str_nat (nat k))"

section \<open>The Boolean labeler: \<^verbatim>\<open>boolean_processer\<close>\<close>

text \<open>
  Lines 111 to 122, one pass of the loop over the rows. \<^verbatim>\<open>series[i] == which_yes\<close> is
  false for NaN. The function has no \<^verbatim>\<open>raise\<close> and no indexing that can fail.
\<close>

definition boolean_row :: "string \<Rightarrow> 'a \<Rightarrow> string \<Rightarrow> 'a option \<Rightarrow> string option list" where
  "boolean_row title which_yes na_action x =
     (if x = None \<and> na_action = ''label'' then [Some (title @ ''_is_na'')]
      else if x = None \<and> na_action = ''return_na'' then [None]
      else if x = Some which_yes then [Some (title @ ''_yes'')]
      else [Some (title @ ''_no'')])"

definition boolean_processer :: "'a option list \<Rightarrow> string \<Rightarrow> 'a \<Rightarrow> string \<Rightarrow> string option list" where
  "boolean_processer series title which_yes na_action =
     concat (map (boolean_row title which_yes na_action) series)"

section \<open>The categorical labeler: \<^verbatim>\<open>cat_processer\<close>\<close>

text \<open>\<^verbatim>\<open>unique()\<close>: the distinct values in order of first appearance.\<close>

fun unique_from :: "'a list \<Rightarrow> 'a list \<Rightarrow> 'a list" where
  "unique_from seen [] = []"
| "unique_from seen (x # xs) =
     (if x \<in> set seen then unique_from seen xs else x # unique_from (x # seen) xs)"

definition unique :: "'a list \<Rightarrow> 'a list" where
  "unique xs = unique_from [] xs"

text \<open>
  Lines 164 to 174, one pass of the loop over the rows. The inner loop has no
  \<^verbatim>\<open>break\<close> (the \<^verbatim>\<open>next\<close> of line 174 is an expression without effect), so it appends
  the label of every \<open>j\<close> whose unique value equals the cell; no \<open>j\<close> does for a
  missing cell.
\<close>

definition cat_row :: "string \<Rightarrow> string \<Rightarrow> string list \<Rightarrow> string list \<Rightarrow> string option \<Rightarrow> string option list" where
  "cat_row title na_action unique_vals labels x =
     (if x = None \<and> na_action = ''label'' then [Some (title @ ''_is_na'')]
      else if x = None \<and> na_action = ''return_na'' then [None]
      else map (\<lambda>j. Some (labels ! j))
             (filter (\<lambda>j. x = Some (unique_vals ! j)) [0..<length unique_vals]))"

definition cat_processer :: "string option list \<Rightarrow> string \<Rightarrow> string \<Rightarrow> string option list" where
  "cat_processer series title na_action =
     (let unique_vals = unique (not_na series);
          labels = map (\<lambda>val. title @ ''_is_'' @ val) unique_vals
      in concat (map (cat_row title na_action unique_vals labels) series))"

section \<open>The column classifier: \<^verbatim>\<open>list_featurize_series\<close>\<close>

text \<open>A column has dtype object (its cells are strings) or a numeric dtype.\<close>

datatype 'a series = ObjectSeries "string option list" | NumericSeries "'a option list"

fun shape0 :: "'a series \<Rightarrow> nat" where
  "shape0 (ObjectSeries cells) = length cells"
| "shape0 (NumericSeries cells) = length cells"

text \<open>
  Lines 198 and 199: \<^verbatim>\<open>series.unique()\<close> with its NaN removed is compared with
  \<^verbatim>\<open>np.array([0,1])\<close> by \<^verbatim>\<open>np.array_equal\<close>, element by element.
\<close>

definition only_boolean :: "'a::{zero,one} option list \<Rightarrow> bool" where
  "only_boolean cells = (not_na (unique cells) = [0, 1])"

text \<open>
  The branch of lines 191 to 213 that a column takes, and the function itself with the
  same two tests.
\<close>

datatype labeler = Categorical | Boolean | Continuous

fun classify :: "'a::{zero,one} series \<Rightarrow> labeler" where
  "classify (ObjectSeries cells) = Categorical"
| "classify (NumericSeries cells) = (if only_boolean cells then Boolean else Continuous)"

fun list_featurize_series ::
  "('a::{linorder,zero,one} \<Rightarrow> string) \<Rightarrow> 'a series \<Rightarrow> string \<Rightarrow> int \<Rightarrow> 'a \<Rightarrow> string
     \<Rightarrow> error + string option list" where
  "list_featurize_series str (ObjectSeries cells) title cutoffs which_yes na_action =
     Inr (cat_processer cells title na_action)"
| "list_featurize_series str (NumericSeries cells) title cutoffs which_yes na_action =
     (if only_boolean cells then Inr (boolean_processer cells title which_yes na_action)
      else float_processer str cells title cutoffs na_action)"

section \<open>The row assembler: \<^verbatim>\<open>list_featurize_df\<close>\<close>

text \<open>
  A DataFrame: the length of its index (\<^verbatim>\<open>df.shape[0]\<close>) and its columns in order, each
  a name and a Series. In a DataFrame every column has as many cells as the index:
  \<open>wellformed\<close>.
\<close>

record 'a dataframe =
  nrows :: nat
  columns :: "(string \<times> 'a series) list"

definition wellformed :: "'a dataframe \<Rightarrow> bool" where
  "wellformed df = list_all (\<lambda>c. shape0 (snd c) = nrows df) (columns df)"

text \<open>
  \<^verbatim>\<open>df_out\<close>: the length of its index and its columns, in order.
  \<^verbatim>\<open>df_out[column] = out_series\<close> on a frame whose index is still empty makes the index
  of a non-empty Series the index of the frame (columns already there are filled with
  NaN); otherwise it aligns the Series with the frame's index (cut, or filled with NaN).
  The names of the columns are left out: they are distinct when the assignment is
  reached, and nothing reads them afterwards.
\<close>

type_synonym frame = "nat \<times> string option list list"

definition setitem :: "frame \<Rightarrow> string option list \<Rightarrow> frame" where
  "setitem df_out out_series =
     (if fst df_out = 0 \<and> out_series \<noteq> []
      then (length out_series,
            map (\<lambda>c. replicate (length out_series) None) (snd df_out) @ [out_series])
      else (fst df_out,
            snd df_out @ [take (fst df_out) out_series
                          @ replicate (fst df_out - length out_series) None]))"

text \<open>
  Lines 223 to 225. \<^verbatim>\<open>df[column]\<close> is a Series when the name \<^verbatim>\<open>column\<close> occurs once
  among \<^verbatim>\<open>df.columns\<close>; for a repeated name it is a DataFrame, and line 191 then
  raises \<^verbatim>\<open>ValueError\<close> (the truth value of a Series). The labelers run with their
  default parameters: \<^verbatim>\<open>cutoffs = 4\<close>, \<^verbatim>\<open>which_yes = 1\<close>, \<^verbatim>\<open>na_action = 'return_na'\<close>.
\<close>

fun featurize_columns ::
  "('a::{linorder,zero,one} \<Rightarrow> string) \<Rightarrow> string list \<Rightarrow> (string \<times> 'a series) list \<Rightarrow> frame
     \<Rightarrow> error + frame" where
  "featurize_columns str names [] df_out = Inr df_out"
| "featurize_columns str names (c # rest) df_out =
     (if 1 < count_list names (fst c) then Inl ValueError
      else
        (case list_featurize_series str (snd c) (fst c) 4 1 ''return_na'' of
           Inl e \<Rightarrow> Inl e
         | Inr out_series \<Rightarrow> featurize_columns str names rest (setitem df_out out_series)))"

text \<open>
  Line 230: \<^verbatim>\<open>df_out.loc[i]\<close> raises \<^verbatim>\<open>KeyError\<close> when \<open>i\<close> is not in the index of
  \<^verbatim>\<open>df_out\<close>; the values of the row that are not NaN are kept, in column order.
\<close>

definition writing_vals :: "frame \<Rightarrow> nat \<Rightarrow> error + string list" where
  "writing_vals df_out i =
     (if i < fst df_out
      then Inr (map the (filter (\<lambda>v. v \<noteq> None) (map (\<lambda>c. c ! i) (snd df_out))))
      else Inl KeyError)"

text \<open>Lines 229 to 231: the loop over the rows \<open>i, i + 1, ...\<close> still to be written.\<close>

fun store_rows :: "frame \<Rightarrow> nat list \<Rightarrow> error + string list list" where
  "store_rows df_out [] = Inr []"
| "store_rows df_out (i # rest) =
     (case writing_vals df_out i of
        Inl e \<Rightarrow> Inl e
      | Inr vals \<Rightarrow>
          (case store_rows df_out rest of Inl e \<Rightarrow> Inl e | Inr store \<Rightarrow> Inr (vals # store)))"

text \<open>The body of \<^verbatim>\<open>list_featurize_df\<close>, lines 222 to 233.\<close>

definition list_featurize_df ::
  "('a::{linorder,zero,one} \<Rightarrow> string) \<Rightarrow> 'a dataframe \<Rightarrow> error + string list list" where
  "list_featurize_df str df =
     (case featurize_columns str (map fst (columns df)) (columns df) (0, []) of
        Inl e \<Rightarrow> Inl e
      | Inr df_out \<Rightarrow> store_rows df_out [0..<nrows df])"

text \<open>
  Lines 219 and 220, the \<^verbatim>\<open>def\<close> statement itself. Python evaluates a default value
  when the \<^verbatim>\<open>def\<close> runs, in the module's namespace: the comprehension's
  \<^verbatim>\<open>range(df.shape[0])\<close> looks the name \<^verbatim>\<open>df\<close> up among the names bound at that point of
  the module and raises \<^verbatim>\<open>NameError\<close> when it is not there. \<open>module_names\<close> are the
  names lines 4 to 181 bind; \<open>def_list_featurize_df\<close> is the value of the default (the
  statement binds the function only if that value exists), given the row count of a
  global \<^verbatim>\<open>df\<close>.
\<close>

definition module_names :: "string list" where
  "module_names =
     [''os'', ''np'', ''pd'', ''mlxtend'', ''ceil'', ''float_processer'',
      ''boolean_processer'', ''cat_processer'', ''list_featurize_series'']"

definition def_list_featurize_df :: "string list \<Rightarrow> nat \<Rightarrow> error + nat list" where
  "def_list_featurize_df names global_df_rows =
     (if ''df'' \<in> set names then Inr [0..<global_df_rows] else Inl NameError)"

section \<open>Evaluating the index arithmetic\<close>

lemma bit_length_0: "bit_length 0 = 0"
  by (simp add: bit_length.simps)

lemma bit_length_Suc_0: "bit_length (Suc 0) = 1"
  by (simp add: bit_length.simps [of "Suc 0"] bit_length_0)

lemma bit_length_1: "bit_length 1 = 1"
  using bit_length_Suc_0 by simp

lemma bit_length_Bit0: "bit_length (numeral (Num.Bit0 k)) = Suc (bit_length (numeral k))"
  by (simp add: bit_length.simps [of "numeral (Num.Bit0 k)"])

lemma bit_length_Bit1: "bit_length (numeral (Num.Bit1 k)) = Suc (bit_length (numeral k))"
  by (simp add: bit_length.simps [of "numeral (Num.Bit1 k)"])

lemmas bit_length_numeral =
  bit_length_0 bit_length_1 bit_length_Suc_0 bit_length_Bit0 bit_length_Bit1

lemmas binary64_eval =
  ceil_def float_mul_def float_of_int_def round53_def round_half_even_def
  bit_length_numeral Let_def

text \<open>The three quotients of the default \<^verbatim>\<open>cutoffs = 4\<close> are exact.\<close>

lemma true_divide_1_4: "true_divide 1 4 = (2 ^ 52, - 54)"
  by (simp add: true_divide_def round_half_even_def bit_length_numeral Let_def)

lemma true_divide_2_4: "true_divide 2 4 = (2 ^ 52, - 53)"
  by (simp add: true_divide_def round_half_even_def bit_length_numeral Let_def)

lemma true_divide_3_4: "true_divide 3 4 = (3 * 2 ^ 51, - 53)"
  by (simp add: true_divide_def round_half_even_def bit_length_numeral Let_def)

lemma cutoff_val_ind_4:
  "cutoff_val_ind 4 n =
     [ceil (float_mul (2 ^ 52, - 54) (float_of_int n)),
      ceil (float_mul (2 ^ 52, - 53) (float_of_int n)),
      ceil (float_mul (3 * 2 ^ 51, - 53) (float_of_int n))]"
proof -
  have "[0..<nat (4 - 1)] = [0, 1, 2]"
    by (simp add: upt_rec)
  then show ?thesis
    unfolding cutoff_val_ind_def
    by (simp add: true_divide_1_4 true_divide_2_4 true_divide_3_4 del: One_nat_def)
qed

lemma cutoff_val_ind_4_8: "cutoff_val_ind 4 8 = [2, 4, 6]"
  by (simp add: cutoff_val_ind_4 binary64_eval)

lemma cutoff_val_ind_length: "length (cutoff_val_ind cutoffs n) = nat (cutoffs - 1)"
  by (simp add: cutoff_val_ind_def)

lemma cutoff_val_ind_empty: "cutoffs < 2 \<Longrightarrow> cutoff_val_ind cutoffs n = []"
  by (simp add: cutoff_val_ind_def)

lemma cutoff_vals_eval:
  "not_na series = xs \<Longrightarrow> length xs = n \<Longrightarrow> cutoff_val_ind c n = ks \<Longrightarrow>
   cutoff_vals series c = getitem_labels (sort xs) ks"
  by (simp add: cutoff_vals_def)

lemma str_nat_digit: "n < 10 \<Longrightarrow> str_nat n = [''0123456789'' ! n]"
  by (simp add: str_nat.simps)

lemma array_getitem_empty: "array_getitem [] k = Inl IndexError"
  by (simp add: array_getitem_def)

text \<open>
  For the default \<^verbatim>\<open>cutoffs = 4\<close> the arithmetic of line 44 is exact: the quotients
  \<open>1/4\<close>, \<open>2/4\<close>, \<open>3/4\<close> are binary64 values, and their products with a row count
  below \<open>2 ^ 51\<close> need no rounding, so the index is the integer ceiling
  \<open>((i + 1) * n + 3) div 4\<close>. For other bin counts the rounding can lift the index by
  one (\<^verbatim>\<open>9 / 11 * 77\<close> is \<^verbatim>\<open>63.00000000000001\<close>, whose ceiling is 64).
\<close>

lemma bit_length_le: "n < 2 ^ k \<Longrightarrow> bit_length n \<le> k"
proof (induction k arbitrary: n)
  case 0
  then show ?case by (simp add: bit_length_0)
next
  case (Suc k)
  then have "n div 2 < 2 ^ k" by simp
  then have "bit_length (n div 2) \<le> k" by (rule Suc.IH)
  then show ?case by (simp add: bit_length.simps [of n])
qed

lemma round_half_even_dvd: "0 < b \<Longrightarrow> b dvd a \<Longrightarrow> round_half_even a b = a div b"
  by (simp add: round_half_even_def Let_def)

lemma ceil_div_scale:
  fixes a P Q :: nat
  assumes "0 < P" and "0 < Q"
  shows "(a * P + Q * P - 1) div (Q * P) = (a + Q - 1) div Q"
proof -
  have "a * P + Q * P - 1 = (a + Q - 1) * P + (P - 1)"
  proof -
    obtain q where q: "Q = Suc q" using assms(2) by (cases Q) auto
    obtain p where p: "P = Suc p" using assms(1) by (cases P) auto
    show ?thesis by (simp add: q p algebra_simps)
  qed
  then have "(a * P + Q * P - 1) div P = ((a + Q - 1) * P + (P - 1)) div P"
    by (simp only:)
  also have "\<dots> = (a + Q - 1) + (P - 1) div P"
    using assms(1) by (intro div_mult_self3) simp
  also have "\<dots> = a + Q - 1"
    using assms(1) by simp
  finally have "(a * P + Q * P - 1) div P = a + Q - 1" .
  moreover have "(a * P + Q * P - 1) div (Q * P) = (a * P + Q * P - 1) div P div Q"
    by (simp add: div_mult2_eq mult.commute)
  ultimately show ?thesis by simp
qed

lemma ceil_div_exact:
  fixes X P :: nat
  assumes "0 < P"
  shows "(X * P + P - 1) div P = X"
proof -
  have "X * P + P - 1 = X * P + (P - 1)"
    using assms by simp
  then have "(X * P + P - 1) div P = (X * P + (P - 1)) div P"
    by (simp only:)
  also have "\<dots> = X + (P - 1) div P"
    using assms by (intro div_mult_self3) simp
  also have "\<dots> = X"
    using assms by simp
  finally show ?thesis .
qed

lemma ceil_round53:
  assumes "E < 0" and "53 < bit_length A \<Longrightarrow> 2 ^ (bit_length A - 53) dvd A"
  shows "ceil (round53 A E) = (A + 2 ^ nat (- E) - 1) div 2 ^ nat (- E)"
proof (cases "bit_length A \<le> 53")
  case True
  then show ?thesis using assms(1) by (simp add: round53_def ceil_def)
next
  case False
  define k where "k = bit_length A - 53"
  define D where "D = nat (- E)"
  define m where "m = A div 2 ^ k"
  have dv: "2 ^ k dvd A" using assms(2) False by (simp add: k_def)
  then have A: "A = m * 2 ^ k" by (simp add: m_def)
  have r: "round53 A E = (m, E + int k)"
    using False dv by (simp add: round53_def round_half_even_dvd k_def m_def Let_def)
  have E: "E = - int D" using assms(1) by (simp add: D_def)
  show ?thesis
  proof (cases "D \<le> k")
    case True
    then obtain j where j: "k = D + j" using le_Suc_ex by blast
    have "ceil (m, E + int k) = m * 2 ^ j"
      by (simp add: ceil_def E j)
    moreover have "(A + 2 ^ D - 1) div 2 ^ D = m * 2 ^ j"
    proof -
      have "A = (m * 2 ^ j) * 2 ^ D"
        by (simp add: A j power_add algebra_simps)
      then show ?thesis
        using ceil_div_exact [of "2 ^ D" "m * 2 ^ j"] by simp
    qed
    ultimately show ?thesis by (simp add: r D_def)
  next
    case False
    then obtain j where j: "D = k + j" and j0: "0 < j"
      by (metis less_imp_add_positive not_le)
    have "ceil (m, E + int k) = (m + 2 ^ j - 1) div 2 ^ j"
      using j0 by (simp add: ceil_def E j)
    moreover have "(A + 2 ^ D - 1) div 2 ^ D = (m + 2 ^ j - 1) div 2 ^ j"
      using ceil_div_scale [of "2 ^ k" "2 ^ j" m]
      by (simp add: A j power_add mult.commute)
    ultimately show ?thesis by (simp add: r D_def)
  qed
qed

lemma float_of_int_small: "n < 2 ^ 53 \<Longrightarrow> float_of_int n = (n, 0)"
  using bit_length_le [of n 53] by (simp add: float_of_int_def round53_def)


lemma default_index:
  assumes "n < 2 ^ 51" and "(j, D) \<in> {(1, 54), (2, 53), (3, 53)}"
  shows "ceil (float_mul (j * 2 ^ (D - 2), - int D) (float_of_int n)) = (j * n + 3) div 4"
proof -
  define A where "A = j * 2 ^ (D - 2) * n"
  have n53: "n < 2 ^ 53"
    using assms(1) by (rule less_le_trans) simp
  have "A < 2 ^ 53 * 2 ^ 51"
    unfolding A_def using assms by (intro mult_le_less_imp_less) auto
  then have "A < 2 ^ 104" by simp
  then have l: "bit_length A \<le> 104" by (rule bit_length_le)
  have dv: "2 ^ (bit_length A - 53) dvd A" if "53 < bit_length A"
  proof -
    have "(2::nat) ^ (bit_length A - 53) dvd 2 ^ 51"
      using l by (intro le_imp_power_dvd) simp
    also have "(2::nat) ^ 51 dvd j * 2 ^ (D - 2)"
      using assms(2) by (auto intro: le_imp_power_dvd)
    finally show ?thesis by (simp add: A_def)
  qed
  have "ceil (float_mul (j * 2 ^ (D - 2), - int D) (float_of_int n)) = ceil (round53 A (- int D))"
    using n53 by (simp add: float_of_int_small float_mul_def A_def)
  also have "\<dots> = (A + 2 ^ D - 1) div 2 ^ D"
    using ceil_round53 [of "- int D" A] dv assms(2) by auto
  also have "\<dots> = (j * n + 3) div 4"
    using ceil_div_scale [of "2 ^ (D - 2)" 4 "j * n"] assms(2)
    by (auto simp: A_def mult.commute mult.left_commute)
  finally show ?thesis .
qed


lemma cutoff_val_ind_4_exact:
  assumes "n < 2 ^ 51"
  shows "cutoff_val_ind 4 n = [(n + 3) div 4, (2 * n + 3) div 4, (3 * n + 3) div 4]"
  using default_index [OF assms, of 1 54] default_index [OF assms, of 2 53]
    default_index [OF assms, of 3 53]
  by (simp add: cutoff_val_ind_4)

lemma cutoff_vals_unfold:
  "cutoff_vals series c =
     getitem_labels (sort (not_na series)) (cutoff_val_ind c (length (not_na series)))"
  by (simp add: cutoff_vals_def Let_def)

lemma quartile_positions_in_range:
  "4 \<le> (n::nat) \<Longrightarrow> (n + 3) div 4 < n \<and> (2 * n + 3) div 4 < n \<and> (3 * n + 3) div 4 < n"
  by arith

lemma getitem_labels_Inr:
  "getitem_labels xs ks = Inr vs \<Longrightarrow>
   length vs = length ks \<and> (\<forall>i<length ks. ks ! i < length xs \<and> vs ! i = xs ! (ks ! i))"
  by (auto simp: getitem_labels_def list_all_length split: if_splits)

lemma cutoff_vals_1_to_8:
  "cutoff_vals [Some 1, Some 2, Some 3, Some 4, Some 5, Some 6, Some 7, Some (8::int)] 4
     = Inr [3, 5, 7]"
proof -
  have "cutoff_vals [Some 1, Some 2, Some 3, Some 4, Some 5, Some 6, Some 7, Some (8::int)] 4
          = getitem_labels (sort [1, 2, 3, 4, 5, 6, 7, 8]) [2, 4, 6]"
    by (rule cutoff_vals_eval [where n = 8]) (simp_all add: not_na_def cutoff_val_ind_4_8)
  then show ?thesis
    by (simp add: getitem_labels_def)
qed

section \<open>A bin count below 2\<close>

text \<open>
  C2 as the code has it. The labeler validates nothing and the module defines no
  exception of its own: with \<^verbatim>\<open>cutoffs = 1\<close> on the column \<open>1, ..., 8\<close> the call fails
  with Python's \<^verbatim>\<open>IndexError\<close>, raised by the indexing of line 49, not with an error
  that names the configuration.
\<close>

theorem float_processer_cutoffs_1_counterexample:
  "float_processer str_int [Some 1, Some 2, Some 3, Some 4, Some 5, Some 6, Some 7, Some 8]
     ''x'' 1 ''return_na'' = Inl IndexError"
  by (simp add: float_processer_def cutoff_vals_unfold cutoff_val_ind_empty getitem_labels_def
      str_labels_def array_getitem_empty)

text \<open>
  C2, amended. For every numeric column, title and missing-value policy, the continuous
  labeler called with \<open>cutoffs < 2\<close> fails with \<^verbatim>\<open>IndexError\<close>: \<^verbatim>\<open>range(cutoffs-1)\<close> is
  empty, so the cutoff array is empty and \<^verbatim>\<open>cutoff_vals[cutoffs-2]\<close> of line 49 is out
  of bounds.
\<close>

theorem float_processer_cutoffs_below_2:
  assumes "cutoffs < 2"
  shows "float_processer str series title cutoffs na_action = Inl IndexError"
proof -
  have "cutoff_vals series cutoffs = Inr []"
    using assms by (simp add: cutoff_vals_def cutoff_val_ind_empty getitem_labels_def)
  moreover have "str_labels str title [] cutoffs = Inl IndexError"
    by (simp add: str_labels_def array_getitem_empty)
  ultimately show ?thesis
    by (simp add: float_processer_def)
qed

theorem float_processer_cutoffs_below_2_witness:
  "(1::int) < 2 \<and>
   float_processer str_int [Some 3, None, Some 8] ''age'' 1 ''label'' = Inl IndexError"
  using float_processer_cutoffs_below_2 [of 1 str_int "[Some 3, None, Some 8]" "''age''" "''label''"]
  by simp

section \<open>The positions of the cutoffs\<close>

text \<open>
  C1 as the code has it. The specification reads the index \<open>\<lceil>(i+1)/cutoffs * n\<rceil>\<close> as a 1-based
  position; line 45 looks the index up as a label of the re-indexed sorted Series, that
  is as a 0-based position, one place further on. For the column \<open>1, ..., 8\<close> with
  \<^verbatim>\<open>cutoffs = 4\<close> the indices are 2, 4, 6, the cutoffs are 3, 5, 7 (not 2, 4, 6), and
  the value 4 is labelled \<^verbatim>\<open>x_lessthan_5\<close> (not \<^verbatim>\<open>x_lessthan_4\<close>).
\<close>

theorem float_processer_1_to_8_counterexample:
  "cutoff_vals [Some 1, Some 2, Some 3, Some 4, Some 5, Some 6, Some 7, Some (8::int)] 4
     = Inr [3, 5, 7] \<and>
   float_processer str_int [Some 1, Some 2, Some 3, Some 4, Some 5, Some 6, Some 7, Some 8]
       ''x'' 4 ''return_na''
     = Inr [Some ''x_lessthan_3'', Some ''x_lessthan_3'', Some ''x_lessthan_3'',
            Some ''x_lessthan_5'', Some ''x_lessthan_5'', Some ''x_lessthan_7'',
            Some ''x_lessthan_7'', Some ''x_morethan_7'']"
  by (simp add: float_processer_def cutoff_vals_1_to_8 str_labels_def array_getitem_def
      float_row_def scan_cutoffs.simps str_int_def str_nat_digit)

text \<open>
  C1, amended. For \<open>cutoffs \<ge> 2\<close>, when the labeler computes its cutoffs there are
  \<open>cutoffs - 1\<close> of them, and the \<open>i\<close>-th is the value at the 0-based position
  \<open>cutoff_val_ind ! i\<close> (the index of line 44, below \<open>n\<close>) of the ascending-sorted
  non-missing values. For the default \<open>cutoffs = 4\<close> and \<open>4 \<le> n < 2 ^ 51\<close> the cutoffs
  are computed, at the 0-based positions \<open>\<lceil>n/4\<rceil>\<close>, \<open>\<lceil>2n/4\<rceil>\<close>, \<open>\<lceil>3n/4\<rceil>\<close>.
\<close>

theorem cutoff_vals_zero_based:
  fixes series :: "'a::linorder option list"
  assumes "2 \<le> cutoffs"
  shows "(cutoff_vals series cutoffs = Inr cvs \<longrightarrow>
            length cvs = nat (cutoffs - 1) \<and>
            (\<forall>i<nat (cutoffs - 1).
               cutoff_val_ind cutoffs (length (not_na series)) ! i < length (not_na series) \<and>
               cvs ! i = sort (not_na series) ! (cutoff_val_ind cutoffs (length (not_na series)) ! i)))
       \<and> (cutoffs = 4 \<and> 4 \<le> length (not_na series) \<and> length (not_na series) < 2 ^ 51 \<longrightarrow>
            cutoff_vals series cutoffs =
              Inr [sort (not_na series) ! ((length (not_na series) + 3) div 4),
                   sort (not_na series) ! ((2 * length (not_na series) + 3) div 4),
                   sort (not_na series) ! ((3 * length (not_na series) + 3) div 4)])"
proof (intro conjI impI)
  assume "cutoff_vals series cutoffs = Inr cvs"
  then have g: "getitem_labels (sort (not_na series))
                  (cutoff_val_ind cutoffs (length (not_na series))) = Inr cvs"
    by (simp add: cutoff_vals_unfold)
  from getitem_labels_Inr [OF g]
  show "length cvs = nat (cutoffs - 1)"
    and "\<forall>i<nat (cutoffs - 1).
           cutoff_val_ind cutoffs (length (not_na series)) ! i < length (not_na series) \<and>
           cvs ! i = sort (not_na series) ! (cutoff_val_ind cutoffs (length (not_na series)) ! i)"
    by (simp_all add: cutoff_val_ind_length)
next
  assume a: "cutoffs = 4 \<and> 4 \<le> length (not_na series) \<and> length (not_na series) < 2 ^ 51"
  then have "cutoff_val_ind 4 (length (not_na series)) =
      [(length (not_na series) + 3) div 4, (2 * length (not_na series) + 3) div 4,
       (3 * length (not_na series) + 3) div 4]"
    by (simp add: cutoff_val_ind_4_exact)
  then show "cutoff_vals series cutoffs =
      Inr [sort (not_na series) ! ((length (not_na series) + 3) div 4),
           sort (not_na series) ! ((2 * length (not_na series) + 3) div 4),
           sort (not_na series) ! ((3 * length (not_na series) + 3) div 4)]"
    using a quartile_positions_in_range [of "length (not_na series)"]
    by (simp add: cutoff_vals_unfold getitem_labels_def)
qed

theorem cutoff_vals_zero_based_witness:
  "(2::int) \<le> 4 \<and>
   cutoff_vals [Some 1, Some 2, Some 3, Some 4, Some 5, Some 6, Some 7, Some (8::int)] 4
     = Inr [3, 5, 7] \<and>
   length [3, 5, 7 :: int] = nat (4 - 1) \<and>
   cutoff_val_ind 4 8 ! 1 = 4 \<and> [3, 5, 7 :: int] ! 1 = sort [1, 2, 3, 4, 5, 6, 7, 8] ! 4"
  using cutoff_vals_zero_based
    [of 4 "[Some 1, Some 2, Some 3, Some 4, Some 5, Some 6, Some 7, Some (8::int)]" "[3, 5, 7]"]
  by (simp add: cutoff_vals_1_to_8 cutoff_val_ind_4_8)

section \<open>Columns with at most one non-missing value\<close>

text \<open>
  A quotient \<^verbatim>\<open>(i+1) / cutoffs\<close> is positive, and its product with the row count 1 is
  positive, so the index of line 44 is at least 1 when \<open>n = 1\<close>; it is 0 when
  \<open>n = 0\<close>.
\<close>

lemma bit_length_upper: "n < 2 ^ bit_length n"
proof (induction n rule: bit_length.induct)
  case (1 n)
  show ?case
  proof (cases "n = 0")
    case True
    then show ?thesis by simp
  next
    case False
    then have "n div 2 < 2 ^ bit_length (n div 2)" by (rule "1.IH")
    then have "n < 2 * 2 ^ bit_length (n div 2)" by linarith
    then show ?thesis using False by (simp add: bit_length.simps [of n])
  qed
qed

lemma bit_length_pos: "0 < n \<Longrightarrow> 0 < bit_length n"
  by (simp add: bit_length.simps [of n])

lemma bit_length_lower: "0 < n \<Longrightarrow> 2 ^ (bit_length n - 1) \<le> n"
proof (induction n rule: bit_length.induct)
  case (1 n)
  show ?case
  proof (cases "n div 2 = 0")
    case True
    then have "bit_length n = 1"
      using "1.prems" by (simp add: bit_length.simps [of n] bit_length_0)
    then show ?thesis using "1.prems" by simp
  next
    case False
    then have ih: "2 ^ (bit_length (n div 2) - 1) \<le> n div 2"
      using "1.IH" "1.prems" by simp
    have "0 < bit_length (n div 2)"
      using False by (simp add: bit_length_pos)
    then have "(2::nat) ^ bit_length (n div 2) = 2 * 2 ^ (bit_length (n div 2) - 1)"
      by (cases "bit_length (n div 2)") auto
    then have "(2::nat) ^ bit_length (n div 2) \<le> n"
      using ih by linarith
    then show ?thesis using "1.prems" by (simp add: bit_length.simps [of n])
  qed
qed

lemma round_half_even_ge: "a div b \<le> round_half_even a b"
  by (simp add: round_half_even_def Let_def)

lemma round_half_even_pos: "0 < b \<Longrightarrow> b \<le> a \<Longrightarrow> 0 < round_half_even a b"
proof -
  assume "0 < b" "b \<le> a"
  then have "0 < a div b" by (simp add: div_greater_zero_iff)
  then show ?thesis using round_half_even_ge [of a b] by linarith
qed

lemma true_divide_pos:
  assumes "0 < a" and "0 < b"
  shows "0 < fst (true_divide a b)"
proof -
  define la where "la = bit_length a"
  define lb where "lb = bit_length b"
  have a1: "2 ^ (la - 1) \<le> a" and a2: "a < 2 ^ la" and la: "0 < la"
    using bit_length_lower [OF assms(1)] bit_length_upper [of a] bit_length_pos [OF assms(1)]
    by (simp_all add: la_def)
  have b1: "2 ^ (lb - 1) \<le> b" and b2: "b < 2 ^ lb" and lb: "0 < lb"
    using bit_length_lower [OF assms(2)] bit_length_upper [of b] bit_length_pos [OF assms(2)]
    by (simp_all add: lb_def)
  define d where "d = int la - int lb"
  define s where "s = (if b * 2 ^ nat d \<le> a * 2 ^ nat (- d) then 52 - d else 53 - d)"
  have td: "true_divide a b = (round_half_even (a * 2 ^ nat s) (b * 2 ^ nat (- s)), - s)"
    using assms(1) by (simp add: true_divide_def Let_def s_def d_def la_def lb_def)
  have "b * 2 ^ nat (- s) \<le> a * 2 ^ nat s"
  proof (cases "b * 2 ^ nat d \<le> a * 2 ^ nat (- d)")
    case True
    then have s: "s = 52 - d" by (simp add: s_def)
    show ?thesis
    proof (cases "0 \<le> s")
      case True
      then have ns: "nat (- s) = 0" and le: "nat (- d) \<le> nat s" using s by simp_all
      have 1: "b \<le> b * 2 ^ nat d" by simp
      have 2: "b * 2 ^ nat d \<le> a * 2 ^ nat (- d)" by fact
      have 3: "a * 2 ^ nat (- d) \<le> a * 2 ^ nat s"
        using le by (intro mult_left_mono power_increasing) simp_all
      from 1 2 3 have "b \<le> a * 2 ^ nat s" by linarith
      then show ?thesis by (simp add: ns)
    next
      case False
      then have ns: "nat s = 0" and le: "nat (- s) \<le> nat d" and nd: "nat (- d) = 0"
        using s by simp_all
      have 1: "b * 2 ^ nat (- s) \<le> b * 2 ^ nat d"
        using le by (intro mult_left_mono power_increasing) simp_all
      have 2: "b * 2 ^ nat d \<le> a * 2 ^ nat (- d)" by fact
      have 3: "a * 2 ^ nat (- d) = a" by (simp add: nd)
      from 1 2 3 have "b * 2 ^ nat (- s) \<le> a" by linarith
      then show ?thesis by (simp add: ns)
    qed
  next
    case False
    then have s: "s = 53 - d" by (simp add: s_def)
    show ?thesis
    proof (cases "0 \<le> s")
      case True
      then have ns: "nat (- s) = 0" using s by simp
      have "lb \<le> (la - 1) + nat s"
        using True s la lb by (simp add: d_def)
      then have "(2::nat) ^ lb \<le> 2 ^ ((la - 1) + nat s)"
        by (simp add: power_increasing)
      also have "\<dots> = 2 ^ (la - 1) * 2 ^ nat s"
        by (simp add: power_add)
      also have "\<dots> \<le> a * 2 ^ nat s"
        using a1 by simp
      finally show ?thesis
        using b2 ns by simp
    next
      case False
      then have ns: "nat s = 0" and "lb + nat (- s) \<le> la - 1"
        using s la lb by (simp_all add: d_def)
      then have "(2::nat) ^ (lb + nat (- s)) \<le> 2 ^ (la - 1)"
        by (simp add: power_increasing)
      then have 1: "(2::nat) ^ lb * 2 ^ nat (- s) \<le> a"
        using a1 by (simp add: power_add)
      have "b \<le> 2 ^ lb"
        using b2 by simp
      then have 2: "b * 2 ^ nat (- s) \<le> 2 ^ lb * 2 ^ nat (- s)"
        by (rule mult_right_mono) simp
      from 1 2 have "b * 2 ^ nat (- s) \<le> a" by linarith
      then show ?thesis
        by (simp add: ns)
    qed
  qed
  moreover have "0 < b * 2 ^ nat (- s)"
    using assms(2) by simp
  ultimately show ?thesis
    by (simp add: td round_half_even_pos)
qed

lemma round53_pos: "0 < m \<Longrightarrow> 0 < fst (round53 m e)"
proof -
  assume m: "0 < m"
  show ?thesis
  proof (cases "bit_length m \<le> 53")
    case True
    then show ?thesis using m by (simp add: round53_def)
  next
    case False
    then have "bit_length m - 53 \<le> bit_length m - 1" by simp
    then have "(2::nat) ^ (bit_length m - 53) \<le> 2 ^ (bit_length m - 1)"
      by (simp add: power_increasing)
    then have "2 ^ (bit_length m - 53) \<le> m"
      using bit_length_lower [OF m] by linarith
    then have "0 < round_half_even m (2 ^ (bit_length m - 53))"
      by (intro round_half_even_pos) simp_all
    then show ?thesis using False by (simp add: round53_def Let_def)
  qed
qed

lemma ceil_pos: "0 < fst x \<Longrightarrow> 0 < ceil x"
  by (auto simp: ceil_def div_greater_zero_iff)

lemma ceil_zero: "fst x = 0 \<Longrightarrow> ceil x = 0"
  by (simp add: ceil_def)

lemma cutoff_val_ind_one:
  assumes "k \<in> set (cutoff_val_ind cutoffs 1)"
  shows "0 < k"
proof -
  from assms obtain i where i: "i < nat (cutoffs - 1)"
    and k: "k = ceil (float_mul (true_divide (i + 1) (nat cutoffs)) (float_of_int 1))"
    by (auto simp: cutoff_val_ind_def)
  have "0 < nat cutoffs" using i by simp
  then have "0 < fst (true_divide (i + 1) (nat cutoffs))"
    by (intro true_divide_pos) simp_all
  moreover have "float_of_int 1 = (1, 0)"
    by (simp add: float_of_int_def round53_def bit_length_numeral)
  ultimately have "0 < fst (float_mul (true_divide (i + 1) (nat cutoffs)) (float_of_int 1))"
    by (simp add: float_mul_def round53_pos)
  then show ?thesis
    unfolding k by (rule ceil_pos)
qed

lemma cutoff_val_ind_zero:
  assumes "k \<in> set (cutoff_val_ind cutoffs 0)"
  shows "k = 0"
proof -
  from assms obtain i where
    k: "k = ceil (float_mul (true_divide (i + 1) (nat cutoffs)) (float_of_int 0))"
    by (auto simp: cutoff_val_ind_def)
  have "float_of_int 0 = (0, 0)"
    by (simp add: float_of_int_def round53_def bit_length_numeral)
  then have "fst (float_mul (true_divide (i + 1) (nat cutoffs)) (float_of_int 0)) = 0"
    by (simp add: float_mul_def round53_def bit_length_numeral)
  then show ?thesis
    unfolding k by (rule ceil_zero)
qed

text \<open>
  C3 at its failing inputs. For every bin count \<open>cutoffs \<ge> 2\<close> (the default is 4), a
  column with no non-missing value gives the indices 0, ..., 0 and a column with one
  gives indices that are at least 1; the first of them is not a label of the sorted
  Series (which has \<open>n \<le> 1\<close> entries), so line 45 raises \<^verbatim>\<open>KeyError\<close> and the labeler
  returns no labeling.
\<close>

theorem float_processer_degenerate:
  assumes "2 \<le> cutoffs" and "length (not_na series) \<le> 1"
  shows "float_processer str series title cutoffs na_action = Inl KeyError"
proof -
  define ks where "ks = cutoff_val_ind cutoffs (length (not_na series))"
  have "length ks = nat (cutoffs - 1)"
    by (simp add: ks_def cutoff_val_ind_length)
  then obtain k rest where ks: "ks = k # rest"
    using assms(1) by (cases ks) auto
  have "length (not_na series) = 0 \<or> length (not_na series) = 1"
    using assms(2) by linarith
  then have "\<not> k < length (not_na series)"
  proof
    assume "length (not_na series) = 0"
    then show ?thesis by simp
  next
    assume n: "length (not_na series) = 1"
    then have "k \<in> set (cutoff_val_ind cutoffs 1)"
      using ks by (simp add: ks_def)
    then have "0 < k" by (rule cutoff_val_ind_one)
    then show ?thesis using n by simp
  qed
  then have "cutoff_vals series cutoffs = Inl KeyError"
    using ks by (simp add: cutoff_vals_unfold getitem_labels_def ks_def [symmetric])
  then show ?thesis
    by (simp add: float_processer_def)
qed

theorem float_processer_degenerate_witness:
  "(2::int) \<le> 4 \<and>
   length (not_na [None, Some (5::int), None]) \<le> 1 \<and>
   float_processer str_int [None, Some 5, None] ''x'' 4 ''return_na'' = Inl KeyError \<and>
   length (not_na [None, None :: int option]) \<le> 1 \<and>
   float_processer str_int [None, None] ''x'' 4 ''label'' = Inl KeyError"
  using float_processer_degenerate [where cutoffs = 4 and series = "[None, Some (5::int), None]"
      and str = str_int and title = "''x''" and na_action = "''return_na''"]
    float_processer_degenerate [where cutoffs = 4 and series = "[None, None :: int option]"
      and str = str_int and title = "''x''" and na_action = "''label''"]
  by (simp add: not_na_def)

section \<open>The loops over the rows\<close>

text \<open>
  Each pass of a labeler's row loop appends a list of entries; the lemmas below give the
  passes in closed form. The scan of the cutoffs stops at the first cutoff that is not
  below the cell, so its result is the length of the longest prefix of cutoffs below
  the cell.
\<close>

lemma concat_map_rows:
  "(\<And>x. x \<in> set xs \<Longrightarrow> g x = [f x]) \<Longrightarrow> concat (map g xs) = map f xs"
  by (induction xs) auto

lemma scan_cutoffs_takeWhile:
  "j < length cvs \<Longrightarrow>
   scan_cutoffs x cvs j = [j + length (takeWhile (\<lambda>c. \<not> cell_le x c) (drop j cvs))]"
proof (induction x cvs j rule: scan_cutoffs.induct)
  case (1 x cvs j)
  have d: "drop j cvs = cvs ! j # drop (Suc j) cvs"
    using "1.prems" by (simp add: Cons_nth_drop_Suc)
  show ?case
  proof (cases "cell_le x (cvs ! j)")
    case True
    then have "scan_cutoffs x cvs j = [j]"
      using "1.prems" by (subst scan_cutoffs.simps) simp
    then show ?thesis using True d by simp
  next
    case False
    show ?thesis
    proof (cases "j = length cvs - 1")
      case True
      then have "drop (Suc j) cvs = []" using "1.prems" by simp
      then have t: "takeWhile (\<lambda>c. \<not> cell_le x c) (drop j cvs) = [cvs ! j]"
        using d False by simp
      have "scan_cutoffs x cvs j = [length cvs]"
        using "1.prems" False True by (subst scan_cutoffs.simps) simp
      moreover have "length cvs = j + 1"
        using True "1.prems" by simp
      ultimately show ?thesis by (simp add: t)
    next
      case nl: False
      then have "Suc j < length cvs" using "1.prems" by simp
      then have "scan_cutoffs x cvs (j + 1) =
          [j + 1 + length (takeWhile (\<lambda>c. \<not> cell_le x c) (drop (j + 1) cvs))]"
        using "1.IH" "1.prems" False nl by simp
      moreover have "scan_cutoffs x cvs j = scan_cutoffs x cvs (j + 1)"
        using "1.prems" False nl by (subst scan_cutoffs.simps) simp
      ultimately show ?thesis
        using d False by simp
    qed
  qed
qed

lemma scan_cutoffs_bucket:
  "cvs \<noteq> [] \<Longrightarrow> scan_cutoffs x cvs 0 = [length (takeWhile (\<lambda>c. \<not> cell_le x c) cvs)]"
  using scan_cutoffs_takeWhile [of 0 cvs x] by simp

lemma takeWhile_True: "takeWhile (\<lambda>c. True) xs = xs"
  by (induction xs) auto

lemma bucket_mono:
  fixes x1 x2 :: "'a::linorder"
  assumes "x1 \<le> x2"
  shows "length (takeWhile (\<lambda>c. \<not> x1 \<le> c) cvs) \<le> length (takeWhile (\<lambda>c. \<not> x2 \<le> c) cvs)"
  using assms by (induction cvs) auto

lemma scan_cutoffs_None: "cvs \<noteq> [] \<Longrightarrow> scan_cutoffs None cvs 0 = [length cvs]"
  by (simp add: scan_cutoffs_bucket takeWhile_True)

lemma float_processer_Inr:
  assumes "float_processer str series title cutoffs na_action = Inr out"
  shows "\<exists>cvs labels. cutoff_vals series cutoffs = Inr cvs \<and>
           str_labels str title cvs cutoffs = Inr labels \<and>
           out = concat (map (float_row title na_action cvs labels) series)"
  using assms by (auto simp: float_processer_def split: sum.splits)

lemma cutoff_vals_length: "cutoff_vals series cutoffs = Inr cvs \<Longrightarrow> length cvs = nat (cutoffs - 1)"
  by (auto simp: cutoff_vals_unfold getitem_labels_def cutoff_val_ind_length split: if_splits)

lemma str_labels_Inr:
  assumes "str_labels str title cvs cutoffs = Inr labels" and "length cvs = nat (cutoffs - 1)"
  shows "cvs \<noteq> [] \<and>
         labels = map (\<lambda>val. title @ ''_lessthan_'' @ str val) cvs
                    @ [title @ ''_morethan_'' @ str (last cvs)]"
proof -
  have ne: "cvs \<noteq> []"
    using assms(1) by (auto simp: str_labels_def array_getitem_empty)
  then have c: "2 \<le> cutoffs" using assms(2) by (cases "2 \<le> cutoffs") auto
  then have k: "nat (cutoffs - 2) = length cvs - 1" and k0: "0 \<le> cutoffs - 2"
    and k1: "cutoffs - 2 < int (length cvs)"
    using assms(2) by simp_all
  have "array_getitem cvs (cutoffs - 2) = Inr (cvs ! (length cvs - 1))"
    unfolding array_getitem_def using k0 k1 by (simp only: k if_True simp_thms)
  then have "array_getitem cvs (cutoffs - 2) = Inr (last cvs)"
    using ne by (simp add: last_conv_nth)
  then show ?thesis
    using assms(1) ne by (simp add: str_labels_def)
qed


lemma float_row_Some:
  "cvs \<noteq> [] \<Longrightarrow>
   float_row title na_action cvs labels (Some x) =
     [Some (labels ! length (takeWhile (\<lambda>c. \<not> x \<le> c) cvs))]"
  by (simp add: float_row_def scan_cutoffs_bucket)

lemma float_row_None:
  "cvs \<noteq> [] \<Longrightarrow>
   float_row title na_action cvs labels None =
     [if na_action = ''label'' then Some (title @ ''_is_na'')
      else if na_action = ''return_na'' then None
      else Some (labels ! length cvs)]"
  by (simp add: float_row_def scan_cutoffs_None)

text \<open>What one pass of the row loop appends, as a function of the cell.\<close>

lemma float_rows:
  assumes "cvs \<noteq> []"
  shows "concat (map (float_row title na_action cvs labels) series) =
         map (\<lambda>x. case x of
                 None \<Rightarrow> (if na_action = ''label'' then Some (title @ ''_is_na'')
                          else if na_action = ''return_na'' then None
                          else Some (labels ! length cvs))
               | Some v \<Rightarrow> Some (labels ! length (takeWhile (\<lambda>c. \<not> v \<le> c) cvs))) series"
  by (rule concat_map_rows) (auto simp: float_row_Some float_row_None assms split: option.splits)

lemma boolean_rows:
  "boolean_processer series title which_yes na_action =
     map (\<lambda>x. case x of
             None \<Rightarrow> (if na_action = ''label'' then Some (title @ ''_is_na'')
                      else if na_action = ''return_na'' then None
                      else Some (title @ ''_no''))
           | Some v \<Rightarrow> Some (if v = which_yes then title @ ''_yes'' else title @ ''_no'')) series"
  unfolding boolean_processer_def
  by (rule concat_map_rows) (auto simp: boolean_row_def split: option.splits)

lemma unique_from_set: "set (unique_from seen xs) = set xs - set seen"
  by (induction seen xs rule: unique_from.induct) auto

lemma unique_from_distinct: "distinct (unique_from seen xs)"
  by (induction seen xs rule: unique_from.induct) (auto simp: unique_from_set)

lemma unique_set: "set (unique xs) = set xs"
  by (simp add: unique_def unique_from_set)

lemma unique_distinct: "distinct (unique xs)"
  by (simp add: unique_def unique_from_distinct)

lemma filter_index_notin:
  "v \<notin> set u \<Longrightarrow> filter (\<lambda>j. v = u ! j) [0..<length u] = []"
  by (auto simp: filter_empty_conv)

lemma filter_index_distinct:
  "distinct u \<Longrightarrow> v \<in> set u \<Longrightarrow>
   map (\<lambda>j. f (u ! j)) (filter (\<lambda>j. v = u ! j) [0..<length u]) = [f v]"
proof (induction u rule: rev_induct)
  case Nil
  then show ?case by simp
next
  case (snoc a u)
  have cong: "filter (\<lambda>j. v = (u @ [a]) ! j) [0..<length u]
                = filter (\<lambda>j. v = u ! j) [0..<length u]"
    by (rule filter_cong) (auto simp: nth_append)
  have mcong: "map (\<lambda>j. f ((u @ [a]) ! j)) (filter (\<lambda>j. v = u ! j) [0..<length u])
                = map (\<lambda>j. f (u ! j)) (filter (\<lambda>j. v = u ! j) [0..<length u])"
    by (rule map_cong) (auto simp: nth_append)
  show ?case
  proof (cases "v = a")
    case True
    then have "v \<notin> set u" using snoc.prems by simp
    then have "filter (\<lambda>j. v = u ! j) [0..<length u] = []"
      by (rule filter_index_notin)
    then have "filter (\<lambda>j. v = (u @ [a]) ! j) [0..<length u] = []"
      by (simp only: cong)
    then show ?thesis
      using True by (simp)
  next
    case False
    then have "v \<in> set u" "distinct u" using snoc.prems by auto
    then show ?thesis
      using False snoc.IH by (simp add: cong mcong)
  qed
qed

lemma cat_rows:
  "cat_processer series title na_action =
     concat (map (\<lambda>x. case x of
             None \<Rightarrow> (if na_action = ''label'' then [Some (title @ ''_is_na'')]
                      else if na_action = ''return_na'' then [None]
                      else [])
           | Some v \<Rightarrow> [Some (title @ ''_is_'' @ v)]) series)"
proof -
  define u where "u = unique (not_na series)"
  have row: "cat_row title na_action u (map (\<lambda>val. title @ ''_is_'' @ val) u) x =
      (case x of
         None \<Rightarrow> (if na_action = ''label'' then [Some (title @ ''_is_na'')]
                  else if na_action = ''return_na'' then [None]
                  else [])
       | Some v \<Rightarrow> [Some (title @ ''_is_'' @ v)])" if "x \<in> set series" for x
  proof (cases x)
    case None
    then show ?thesis by (simp add: cat_row_def)
  next
    case (Some v)
    then have "v \<in> set u"
      using that by (force simp: u_def unique_set not_na_def)
    then have "map (\<lambda>j. Some (title @ ''_is_'' @ u ! j))
                 (filter (\<lambda>j. v = u ! j) [0..<length u]) = [Some (title @ ''_is_'' @ v)]"
      using filter_index_distinct [of u v "\<lambda>w. Some (title @ ''_is_'' @ w)"]
      by (simp add: u_def unique_distinct)
    moreover have "map (\<lambda>j. Some (map (\<lambda>val. title @ ''_is_'' @ val) u ! j))
                 (filter (\<lambda>j. v = u ! j) [0..<length u])
               = map (\<lambda>j. Some (title @ ''_is_'' @ u ! j))
                 (filter (\<lambda>j. v = u ! j) [0..<length u])"
      by (rule map_cong) auto
    ultimately show ?thesis
      using Some by (simp add: cat_row_def)
  qed
  have "cat_processer series title na_action =
          concat (map (cat_row title na_action u (map (\<lambda>val. title @ ''_is_'' @ val) u)) series)"
    by (simp add: cat_processer_def Let_def u_def)
  also have "\<dots> = concat (map (\<lambda>x. case x of
             None \<Rightarrow> (if na_action = ''label'' then [Some (title @ ''_is_na'')]
                      else if na_action = ''return_na'' then [None]
                      else [])
           | Some v \<Rightarrow> [Some (title @ ''_is_'' @ v)]) series)"
    using row by (intro arg_cong [where f = concat] map_cong) auto
  finally show ?thesis .
qed


lemma float_processer_rows:
  assumes "float_processer str series title cutoffs na_action = Inr out"
    and "cutoff_vals series cutoffs = Inr cvs"
  shows "cvs \<noteq> [] \<and>
    out = map (\<lambda>x. case x of
                 None \<Rightarrow> (if na_action = ''label'' then Some (title @ ''_is_na'')
                          else if na_action = ''return_na'' then None
                          else Some (title @ ''_morethan_'' @ str (last cvs)))
               | Some v \<Rightarrow>
                   (if length (takeWhile (\<lambda>c. \<not> v \<le> c) cvs) < length cvs
                    then Some (title @ ''_lessthan_''
                               @ str (cvs ! length (takeWhile (\<lambda>c. \<not> v \<le> c) cvs)))
                    else Some (title @ ''_morethan_'' @ str (last cvs)))) series"
proof -
  from float_processer_Inr [OF assms(1)] assms(2)
  obtain labels where l: "str_labels str title cvs cutoffs = Inr labels"
    and o: "out = concat (map (float_row title na_action cvs labels) series)"
    by auto
  from str_labels_Inr [OF l cutoff_vals_length [OF assms(2)]]
  have ne: "cvs \<noteq> []"
    and labels: "labels = map (\<lambda>val. title @ ''_lessthan_'' @ str val) cvs
                    @ [title @ ''_morethan_'' @ str (last cvs)]"
    by simp_all
  have le: "length (takeWhile (\<lambda>c. \<not> v \<le> c) cvs) \<le> length cvs" for v
    by (rule length_takeWhile_le)
  have nth: "labels ! length (takeWhile (\<lambda>c. \<not> v \<le> c) cvs) =
      (if length (takeWhile (\<lambda>c. \<not> v \<le> c) cvs) < length cvs
       then title @ ''_lessthan_'' @ str (cvs ! length (takeWhile (\<lambda>c. \<not> v \<le> c) cvs))
       else title @ ''_morethan_'' @ str (last cvs))" for v
    using le [of v] by (auto simp: labels nth_append)
  have last: "labels ! length cvs = title @ ''_morethan_'' @ str (last cvs)"
    by (simp add: labels nth_append)
  show ?thesis
    unfolding o float_rows [OF ne]
    by (auto simp: ne nth last split: option.splits intro!: map_cong)
qed

lemma cutoff_val_ind_4_4: "cutoff_val_ind 4 4 = [1, 2, 3]"
  by (simp add: cutoff_val_ind_4 binary64_eval)

lemma cutoff_vals_example:
  "cutoff_vals [Some 1, None, Some 2, Some 3, Some (4::int)] 4 = Inr [2, 3, 4]"
proof -
  have "cutoff_vals [Some 1, None, Some 2, Some 3, Some (4::int)] 4
          = getitem_labels (sort [1, 2, 3, 4]) [1, 2, 3]"
    by (rule cutoff_vals_eval [where n = 4]) (simp_all add: not_na_def cutoff_val_ind_4_4)
  then show ?thesis
    by (simp add: getitem_labels_def)
qed

lemma float_processer_example:
  "float_processer str_int [Some 1, None, Some 2, Some 3, Some 4] ''x'' 4 na_action =
     Inr [Some ''x_lessthan_2'',
          if na_action = ''label'' then Some ''x_is_na''
          else if na_action = ''return_na'' then None else Some ''x_morethan_4'',
          Some ''x_lessthan_2'', Some ''x_lessthan_3'', Some ''x_lessthan_4'']"
  by (simp add: float_processer_def cutoff_vals_example str_labels_def array_getitem_def
      float_row_def scan_cutoffs.simps str_int_def str_nat_digit)

lemma float_processer_Inl:
  "float_processer str series title cutoffs na_action = Inl e \<longleftrightarrow>
     cutoff_vals series cutoffs = Inl e \<or>
     (\<exists>cvs. cutoff_vals series cutoffs = Inr cvs \<and> str_labels str title cvs cutoffs = Inl e)"
  by (auto simp: float_processer_def split: sum.splits)


lemma cat_rows_recognised:
  assumes "na_action = ''label'' \<or> na_action = ''return_na''"
  shows "cat_processer series title na_action =
     map (\<lambda>x. case x of
             None \<Rightarrow> (if na_action = ''label'' then Some (title @ ''_is_na'') else None)
           | Some v \<Rightarrow> Some (title @ ''_is_'' @ v)) series"
  unfolding cat_rows
  by (rule concat_map_rows) (use assms in \<open>auto split: option.splits\<close>)

lemma cat_rows_unrecognised:
  assumes "na_action \<noteq> ''label''" and "na_action \<noteq> ''return_na''"
  shows "cat_processer series title na_action =
           map (\<lambda>v. Some (title @ ''_is_'' @ v)) (not_na series)"
  unfolding cat_rows not_na_def
  by (induction series) (use assms in \<open>auto split: option.splits\<close>)

section \<open>The bucket of a value\<close>

text \<open>
  C8. In a labeling the continuous labeler returns, a non-missing cell \<open>x\<close> of row
  \<open>i\<close> has the bucket \<open>k\<close> found by the scan of lines 65 to 71. If \<open>k\<close> is the position
  of a cutoff, that cutoff is the first one with \<open>x \<le> cutoff\<close> and the row's label is
  its \<^verbatim>\<open>lessthan\<close> label; otherwise \<open>x\<close> exceeds every cutoff and the label is the final
  \<^verbatim>\<open>morethan\<close> label. A cutoff at position \<open>j\<close> with \<open>x \<le> cutoff\<close> (in particular one
  equal to \<open>x\<close>) bounds the bucket by \<open>j\<close>, so a value on a boundary lies in a
  \<^verbatim>\<open>lessthan\<close> bucket at or below it; and for all values \<open>x1 \<le> x2\<close> the bucket of
  \<open>x1\<close> is not above the bucket of \<open>x2\<close>.
\<close>

theorem float_processer_first_cutoff:
  assumes "float_processer str series title cutoffs na_action = Inr out"
    and "cutoff_vals series cutoffs = Inr cvs"
    and "i < length series" and "series ! i = Some x"
  shows "\<exists>k. scan_cutoffs (Some x) cvs 0 = [k] \<and>
           (k < length cvs \<longrightarrow>
              x \<le> cvs ! k \<and> (\<forall>j<k. \<not> x \<le> cvs ! j) \<and>
              out ! i = Some (title @ ''_lessthan_'' @ str (cvs ! k))) \<and>
           (\<not> k < length cvs \<longrightarrow>
              k = length cvs \<and> (\<forall>c\<in>set cvs. \<not> x \<le> c) \<and>
              out ! i = Some (title @ ''_morethan_'' @ str (last cvs))) \<and>
           (\<forall>j<length cvs. x \<le> cvs ! j \<longrightarrow> k \<le> j) \<and>
           (\<forall>x1 x2. x1 \<le> x2 \<longrightarrow>
              (\<exists>k1 k2. scan_cutoffs (Some x1) cvs 0 = [k1] \<and>
                       scan_cutoffs (Some x2) cvs 0 = [k2] \<and> k1 \<le> k2))"
proof -
  define k where "k = length (takeWhile (\<lambda>c. \<not> x \<le> c) cvs)"
  from float_processer_rows [OF assms(1,2)]
  have ne: "cvs \<noteq> []" and out: "out ! i =
      (if k < length cvs then Some (title @ ''_lessthan_'' @ str (cvs ! k))
       else Some (title @ ''_morethan_'' @ str (last cvs)))"
    using assms(3,4) by (simp_all add: k_def)
  have scan: "scan_cutoffs (Some x) cvs 0 = [k]"
    using ne by (simp add: scan_cutoffs_bucket k_def)
  have le: "k \<le> length cvs"
    unfolding k_def by (rule length_takeWhile_le)
  have before: "\<not> x \<le> cvs ! j" if "j < k" for j
  proof -
    have "takeWhile (\<lambda>c. \<not> x \<le> c) cvs ! j \<in> set (takeWhile (\<lambda>c. \<not> x \<le> c) cvs)"
      using that by (simp add: k_def)
    then have "\<not> x \<le> takeWhile (\<lambda>c. \<not> x \<le> c) cvs ! j"
      by (rule set_takeWhileD [THEN conjunct2])
    then show ?thesis
      using that by (simp add: k_def takeWhile_nth)
  qed
  have at: "x \<le> cvs ! k" if "k < length cvs"
    using that nth_length_takeWhile [of "\<lambda>c. \<not> x \<le> c" cvs] by (simp add: k_def)
  have all: "\<forall>c\<in>set cvs. \<not> x \<le> c" if "\<not> k < length cvs"
  proof
    fix c assume "c \<in> set cvs"
    then obtain j where "j < length cvs" "cvs ! j = c" by (auto simp: in_set_conv_nth)
    then show "\<not> x \<le> c" using before [of j] that by auto
  qed
  have first: "k \<le> j" if "j < length cvs" "x \<le> cvs ! j" for j
    using that before [of j] by (cases "k \<le> j") auto
  have mono: "\<exists>k1 k2. scan_cutoffs (Some x1) cvs 0 = [k1] \<and>
                 scan_cutoffs (Some x2) cvs 0 = [k2] \<and> k1 \<le> k2" if "x1 \<le> x2" for x1 x2
    using ne bucket_mono [OF that, of cvs] by (simp add: scan_cutoffs_bucket)
  show ?thesis
    using scan out le before at all first mono by (intro exI [of _ k]) auto
qed


theorem float_processer_first_cutoff_witness:
  "float_processer str_int [Some 1, None, Some 2, Some 3, Some 4] ''x'' 4 ''return_na''
     = Inr [Some ''x_lessthan_2'', None, Some ''x_lessthan_2'', Some ''x_lessthan_3'',
            Some ''x_lessthan_4''] \<and>
   cutoff_vals [Some 1, None, Some 2, Some 3, Some (4::int)] 4 = Inr [2, 3, 4] \<and>
   (3::nat) < length [Some 1, None, Some 2, Some 3, Some (4::int)] \<and>
   [Some 1, None, Some 2, Some 3, Some (4::int)] ! 3 = Some 3 \<and>
   (\<exists>k. scan_cutoffs (Some (3::int)) [2, 3, 4] 0 = [k] \<and> k = 1)"
proof -
  have a: "float_processer str_int [Some 1, None, Some 2, Some 3, Some 4] ''x'' 4 ''return_na''
     = Inr [Some ''x_lessthan_2'', None, Some ''x_lessthan_2'', Some ''x_lessthan_3'',
            Some ''x_lessthan_4'']"
    by (simp add: float_processer_example)
  have b: "(3::nat) < length [Some 1, None, Some 2, Some 3, Some (4::int)]"
    and c: "[Some 1, None, Some 2, Some 3, Some (4::int)] ! 3 = Some 3"
    by simp_all
  from float_processer_first_cutoff [OF a cutoff_vals_example b c]
  obtain k where k: "scan_cutoffs (Some (3::int)) [2, 3, 4] 0 = [k]"
    and first: "\<forall>j<length [2, 3, 4 :: int]. 3 \<le> [2, 3, 4 :: int] ! j \<longrightarrow> k \<le> j"
    and nb: "k < length [2, 3, 4 :: int] \<longrightarrow> 3 \<le> [2, 3, 4 :: int] ! k"
    by blast
  from first have "k \<le> 1" by force
  moreover have "k \<noteq> 0" using nb \<open>k \<le> 1\<close> by (cases k) auto
  ultimately have "k = 1" by simp
  with k a b c cutoff_vals_example show ?thesis by blast
qed

section \<open>The Boolean labeler on other values\<close>

text \<open>
  C6 as the code has it: \<^verbatim>\<open>boolean_processer\<close> checks nothing about the values of the
  column. On the column \<open>0, 2, 1\<close> with \<^verbatim>\<open>which_yes = 1\<close> it returns labels, and the
  value 2 gets \<^verbatim>\<open>flag_no\<close>.
\<close>

theorem boolean_processer_other_value_counterexample:
  "boolean_processer [Some 0, Some 2, Some 1] ''flag'' (1::int) ''return_na''
     = [Some ''flag_no'', Some ''flag_no'', Some ''flag_yes'']"
  by (simp add: boolean_processer_def boolean_row_def)

text \<open>
  C6, amended. For every column, title, \<^verbatim>\<open>which_yes\<close> and policy the Boolean labeler
  returns one entry per row without failing, and a non-missing value gets the
  \<^verbatim>\<open>yes\<close> label when it equals \<^verbatim>\<open>which_yes\<close> and the \<^verbatim>\<open>no\<close> label otherwise, whatever the
  value is.
\<close>

theorem boolean_processer_unchecked:
  "length (boolean_processer series title which_yes na_action) = length series \<and>
   (\<forall>i<length series. \<forall>v. series ! i = Some v \<longrightarrow>
      boolean_processer series title which_yes na_action ! i
        = Some (if v = which_yes then title @ ''_yes'' else title @ ''_no''))"
  by (simp add: boolean_rows)

theorem boolean_processer_unchecked_witness:
  "length (boolean_processer [Some 0, Some 2, None] ''flag'' (1::int) ''label'') = 3 \<and>
   boolean_processer [Some 0, Some 2, None] ''flag'' (1::int) ''label'' ! 1 = Some ''flag_no''"
proof -
  note t = boolean_processer_unchecked [of "[Some (0::int), Some 2, None]" "''flag''" 1 "''label''"]
  from t have "length (boolean_processer [Some 0, Some 2, None] ''flag'' (1::int) ''label'') = 3"
    by simp
  moreover from t [THEN conjunct2, rule_format, of 1 2]
  have "boolean_processer [Some 0, Some 2, None] ''flag'' (1::int) ''label'' ! 1 = Some ''flag_no''"
    by simp
  ultimately show ?thesis by simp
qed

section \<open>A missing-value policy that is not recognised\<close>

text \<open>
  C7 as the code has it: the labelers compare \<^verbatim>\<open>na_action\<close> with \<^verbatim>\<open>"label"\<close> and
  \<^verbatim>\<open>"return_na"\<close> and have no \<^verbatim>\<open>else\<close>. With the value \<^verbatim>\<open>"drop"\<close> none of them raises:
  the Boolean labeler labels the missing cell \<^verbatim>\<open>flag_no\<close>, the categorical labeler
  returns two entries for three rows, the continuous labeler labels the missing cell
  \<^verbatim>\<open>x_morethan_4\<close>.
\<close>

theorem unrecognised_na_action_counterexample:
  "boolean_processer [Some (1::int), None] ''flag'' 1 ''drop''
     = [Some ''flag_yes'', Some ''flag_no''] \<and>
   cat_processer [Some ''a'', None, Some ''b''] ''c'' ''drop''
     = [Some ''c_is_a'', Some ''c_is_b''] \<and>
   float_processer str_int [Some 1, None, Some 2, Some 3, Some 4] ''x'' 4 ''drop''
     = Inr [Some ''x_lessthan_2'', Some ''x_morethan_4'', Some ''x_lessthan_2'',
            Some ''x_lessthan_3'', Some ''x_lessthan_4'']"
  by (simp add: boolean_rows cat_rows float_processer_example)

text \<open>
  C7, amended. With a policy value other than \<^verbatim>\<open>"label"\<close> and \<^verbatim>\<open>"return_na"\<close> no labeler
  raises an error on that account. The Boolean labeler treats a missing cell as a
  value that is not \<^verbatim>\<open>which_yes\<close>; the categorical labeler appends nothing for a
  missing cell, so its output has one entry per non-missing cell; the continuous
  labeler fails exactly where it fails under \<^verbatim>\<open>"return_na"\<close>, and where it returns, its
  output has one entry per row and a missing cell has the final \<^verbatim>\<open>morethan\<close> label.
\<close>

theorem unrecognised_na_action:
  assumes "na_action \<noteq> ''label''" and "na_action \<noteq> ''return_na''"
  shows "boolean_processer series title which_yes na_action
           = map (\<lambda>x. Some (if x = Some which_yes then title @ ''_yes'' else title @ ''_no'')) series
       \<and> cat_processer cells title na_action
           = map (\<lambda>v. Some (title @ ''_is_'' @ v)) (not_na cells)
       \<and> (\<forall>e. float_processer str fseries title cutoffs na_action = Inl e \<longleftrightarrow>
                float_processer str fseries title cutoffs ''return_na'' = Inl e)
       \<and> (\<forall>out cvs. float_processer str fseries title cutoffs na_action = Inr out \<longrightarrow>
                cutoff_vals fseries cutoffs = Inr cvs \<longrightarrow>
                length out = length fseries \<and>
                (\<forall>i<length fseries. fseries ! i = None \<longrightarrow>
                   out ! i = Some (title @ ''_morethan_'' @ str (last cvs))))"
proof -
  have b: "boolean_processer series title which_yes na_action
          = map (\<lambda>x. Some (if x = Some which_yes then title @ ''_yes'' else title @ ''_no'')) series"
    unfolding boolean_rows using assms by (auto split: option.splits)
  have c: "cat_processer cells title na_action
          = map (\<lambda>v. Some (title @ ''_is_'' @ v)) (not_na cells)"
    using assms by (rule cat_rows_unrecognised)
  have e: "float_processer str fseries title cutoffs na_action = Inl e \<longleftrightarrow>
        float_processer str fseries title cutoffs ''return_na'' = Inl e" for e
    by (simp add: float_processer_Inl)
  have f: "length out = length fseries \<and>
           (\<forall>i<length fseries. fseries ! i = None \<longrightarrow>
              out ! i = Some (title @ ''_morethan_'' @ str (last cvs)))"
    if o: "float_processer str fseries title cutoffs na_action = Inr out"
      and cv: "cutoff_vals fseries cutoffs = Inr cvs" for out cvs
    using float_processer_rows [OF o cv] assms by simp
  from b c e f show ?thesis by blast
qed

theorem unrecognised_na_action_witness:
  "''drop'' \<noteq> ''label'' \<and> ''drop'' \<noteq> ''return_na'' \<and>
   boolean_processer [Some (1::int), None] ''x'' 1 ''drop'' = [Some ''x_yes'', Some ''x_no''] \<and>
   cat_processer [Some ''a'', None, Some ''b''] ''x'' ''drop''
     = [Some ''x_is_a'', Some ''x_is_b''] \<and>
   float_processer str_int [Some 1, None, Some 2, Some 3, Some 4] ''x'' 4 ''drop''
     \<noteq> Inl KeyError"
  using unrecognised_na_action [where na_action = "''drop''" and series = "[Some (1::int), None]"
      and title = "''x''" and which_yes = 1 and cells = "[Some ''a'', None, Some ''b'']"
      and str = str_int and fseries = "[Some 1, None, Some 2, Some 3, Some 4]" and cutoffs = 4]
  by (simp add: not_na_def float_processer_example)


section \<open>From \<^verbatim>\<open>return_na\<close> to \<^verbatim>\<open>label\<close>\<close>



section \<open>The classifier and the order of the values\<close>

text \<open>
  The test of lines 198 and 199 compares the unique non-missing values with the array
  \<open>[0, 1]\<close> position by position, and \<^verbatim>\<open>unique()\<close> lists values in order of first
  appearance. So the test holds exactly when the non-missing values are 0 and 1 and the
  first of them is 0.
\<close>

lemma not_na_Cons_None: "not_na (None # xs) = not_na xs"
  by (simp add: not_na_def)

lemma not_na_Cons_Some: "not_na (Some v # xs) = v # not_na xs"
  by (simp add: not_na_def)

lemma not_na_Nil: "not_na [] = []"
  by (simp add: not_na_def)

lemma set_not_na: "v \<in> set (not_na xs) \<longleftrightarrow> Some v \<in> set xs"
  by (force simp: not_na_def)

lemma not_na_unique_from:
  "not_na (unique_from seen xs) = unique_from (not_na seen) (not_na xs)"
proof (induction xs arbitrary: seen)
  case Nil
  then show ?case by (simp add: not_na_Nil)
next
  case (Cons x xs)
  show ?case
  proof (cases x)
    case None
    then show ?thesis
      using Cons [of seen] Cons [of "None # seen"]
      by (simp add: not_na_Cons_None)
  next
    case (Some v)
    then show ?thesis
      using Cons [of seen] Cons [of "Some v # seen"]
      by (simp add: not_na_Cons_Some set_not_na)
  qed
qed

lemma not_na_unique: "not_na (unique xs) = unique (not_na xs)"
  by (simp add: unique_def not_na_unique_from not_na_Nil)

lemma distinct_set_singleton: "distinct xs \<Longrightarrow> set xs = {a} \<Longrightarrow> xs = [a]"
  by (cases xs) (auto simp: distinct_length_2_or_more dest: subset_singletonD)

lemma list_featurize_series_classify:
  "list_featurize_series str s title cutoffs which_yes na_action =
     (case s of
        ObjectSeries cells \<Rightarrow> Inr (cat_processer cells title na_action)
      | NumericSeries cells \<Rightarrow>
          (case classify s of
             Boolean \<Rightarrow> Inr (boolean_processer cells title which_yes na_action)
           | _ \<Rightarrow> float_processer str cells title cutoffs na_action))"
  by (cases s) auto

lemma only_boolean_order:
  fixes cells :: "'a::zero_neq_one option list"
  shows "only_boolean cells \<longleftrightarrow>
           set (not_na cells) = {0, 1} \<and> (\<exists>rest. not_na cells = 0 # rest)"
proof
  assume "only_boolean cells"
  then have u: "unique (not_na cells) = [0, 1]"
    by (simp add: only_boolean_def not_na_unique)
  then have "set (not_na cells) = {0, 1}"
    using unique_set [of "not_na cells"] by simp
  moreover have "\<exists>rest. not_na cells = 0 # rest"
    using u by (cases "not_na cells") (auto simp: unique_def)
  ultimately show "set (not_na cells) = {0, 1} \<and> (\<exists>rest. not_na cells = 0 # rest)"
    by simp
next
  assume a: "set (not_na cells) = {0, 1} \<and> (\<exists>rest. not_na cells = 0 # rest)"
  then obtain rest where r: "not_na cells = 0 # rest" by blast
  have s: "insert 0 (set rest) = {0, 1}"
    using a r by simp
  then have "1 \<in> insert 0 (set rest)"
    by simp
  then have "1 \<in> set rest"
    by simp
  moreover have "set rest \<subseteq> {0, 1}"
    using s by blast
  ultimately have "set rest - {0} = {1}"
    by auto
  then have "set (unique_from [0] rest) = {1}"
    by (simp add: unique_from_set)
  then have "unique_from [0] rest = [1]"
    using unique_from_distinct by (rule distinct_set_singleton [rotated])
  then have "unique (not_na cells) = [0, 1]"
    by (simp add: unique_def r)
  then show "only_boolean cells"
    by (simp add: only_boolean_def not_na_unique)
qed

text \<open>
  C4 at a failing input. The distinct non-missing values of the column \<open>1, 0, 1, 0\<close>
  are \<open>{0, 1}\<close>, yet the classifier does not select the Boolean labeler: the column
  goes to the continuous labeler and gets \<^verbatim>\<open>lessthan\<close> labels, not \<^verbatim>\<open>yes\<close> and \<^verbatim>\<open>no\<close>.
\<close>

theorem classify_one_zero:
  "set (not_na [Some 1, Some 0, Some 1, Some (0::int)]) = {0, 1} \<and>
   classify (NumericSeries [Some 1, Some 0, Some 1, Some (0::int)]) = Continuous \<and>
   list_featurize_series str_int (NumericSeries [Some 1, Some 0, Some 1, Some 0])
       ''flag'' 4 1 ''return_na''
     = Inr [Some ''flag_lessthan_1'', Some ''flag_lessthan_0'',
            Some ''flag_lessthan_1'', Some ''flag_lessthan_0'']"
proof -
  have nb: "\<not> only_boolean [Some 1, Some 0, Some 1, Some (0::int)]"
    by (simp add: only_boolean_def unique_def not_na_def)
  have "cutoff_vals [Some 1, Some 0, Some 1, Some (0::int)] 4
          = getitem_labels (sort [1, 0, 1, 0]) [1, 2, 3]"
    by (rule cutoff_vals_eval [where n = 4]) (simp_all add: not_na_def cutoff_val_ind_4_4)
  then have cv: "cutoff_vals [Some 1, Some 0, Some 1, Some (0::int)] 4 = Inr [0, 1, 1]"
    by (simp add: getitem_labels_def)
  have "float_processer str_int [Some 1, Some 0, Some 1, Some 0] ''flag'' 4 ''return_na''
     = Inr [Some ''flag_lessthan_1'', Some ''flag_lessthan_0'',
            Some ''flag_lessthan_1'', Some ''flag_lessthan_0'']"
    by (simp add: float_processer_def cv str_labels_def array_getitem_def
        float_row_def scan_cutoffs.simps str_int_def str_nat_digit)
  then show ?thesis
    using nb by (simp add: not_na_def insert_commute)
qed

section \<open>The default of \<^verbatim>\<open>index_list\<close>\<close>

text \<open>
  C5 where it fails. When the \<^verbatim>\<open>def\<close> statement of lines 219 and 220 runs, the module
  has bound no name \<^verbatim>\<open>df\<close>, so evaluating the default of \<^verbatim>\<open>index_list\<close> raises
  \<^verbatim>\<open>NameError\<close>, whatever frame a caller would later pass: the function is never
  bound, and loading the module fails at that statement.
\<close>

theorem def_list_featurize_df_NameError:
  "def_list_featurize_df module_names global_df_rows = Inl NameError"
  by (simp add: def_list_featurize_df_def module_names_def)
section \<open>The transaction store\<close>

text \<open>
  The theorems of this section are about the body of \<^verbatim>\<open>list_featurize_df\<close>, lines 222
  to 233, as it runs once the function is defined.
\<close>

lemma list_featurize_series_length:
  assumes "list_featurize_series str s title cutoffs which_yes ''return_na'' = Inr out"
  shows "length out = shape0 s"
proof (cases s)
  case (ObjectSeries cells)
  then show ?thesis using assms by (auto simp: cat_rows_recognised)
next
  case (NumericSeries cells)
  show ?thesis
  proof (cases "only_boolean cells")
    case True
    then show ?thesis using assms NumericSeries by (auto simp: boolean_rows)
  next
    case False
    then have f: "float_processer str cells title cutoffs ''return_na'' = Inr out"
      using assms NumericSeries by simp
    from float_processer_Inr [OF f] obtain cvs where "cutoff_vals cells cutoffs = Inr cvs"
      by blast
    from float_processer_rows [OF f this] show ?thesis
      using NumericSeries by simp
  qed
qed

lemma setitem_aligned:
  assumes "length out_series = n" and "L = n \<or> (L = 0 \<and> outs = [])"
  shows "setitem (L, outs) out_series = (n, outs @ [out_series])"
  using assms by (auto simp: setitem_def)

lemma featurize_columns_Inr:
  assumes "featurize_columns str names cols (L, outs) = Inr df_out"
    and "\<forall>c\<in>set cols. shape0 (snd c) = n"
    and "L = n \<or> (L = 0 \<and> outs = [])"
  shows "snd df_out = outs @ map (\<lambda>c. projr (list_featurize_series str (snd c) (fst c) 4 1 ''return_na'')) cols
       \<and> fst df_out = (if cols = [] then L else n)
       \<and> (\<forall>c\<in>set cols. \<exists>out. list_featurize_series str (snd c) (fst c) 4 1 ''return_na'' = Inr out
              \<and> length out = n)"
  using assms
proof (induction cols arbitrary: L outs)
  case Nil
  then show ?case by auto
next
  case (Cons c cols)
  from Cons.prems(1) obtain out where
    out: "list_featurize_series str (snd c) (fst c) 4 1 ''return_na'' = Inr out"
    and rest: "featurize_columns str names cols (setitem (L, outs) out) = Inr df_out"
    by (auto split: if_splits sum.splits)
  have len: "length out = n"
    using list_featurize_series_length [OF out] Cons.prems(2) by simp
  have s: "setitem (L, outs) out = (n, outs @ [out])"
    using len Cons.prems(3) by (rule setitem_aligned)
  from Cons.IH [of n "outs @ [out]"] rest s Cons.prems(2)
  have "snd df_out = (outs @ [out]) @ map (\<lambda>c. projr (list_featurize_series str (snd c) (fst c) 4 1 ''return_na'')) cols"
    and "fst df_out = (if cols = [] then n else n)"
    and "\<forall>c\<in>set cols. \<exists>out. list_featurize_series str (snd c) (fst c) 4 1 ''return_na'' = Inr out
              \<and> length out = n"
    by simp_all
  then show ?case
    using out len by simp
qed

lemma store_rows_Inr:
  "store_rows df_out rows = Inr store \<Longrightarrow>
   length store = length rows \<and> (\<forall>k<length rows. writing_vals df_out (rows ! k) = Inr (store ! k))"
proof (induction rows arbitrary: store)
  case Nil
  then show ?case by simp
next
  case (Cons i rows)
  from Cons.prems obtain vals store' where
    v: "writing_vals df_out i = Inr vals" and s: "store_rows df_out rows = Inr store'"
    and st: "store = vals # store'"
    by (auto split: sum.splits)
  from Cons.IH [OF s] show ?case
    using v st by (auto simp: nth_Cons split: nat.splits)
qed

lemma cutoff_val_ind_4_5: "cutoff_val_ind 4 5 = [2, 3, 4]"
  by (simp add: cutoff_val_ind_4 binary64_eval)

lemma float_processer_1_to_5:
  "float_processer str_int [Some 1, Some 2, Some 3, Some 4, Some 5] ''x'' 4 ''return_na'' =
     Inr [Some ''x_lessthan_3'', Some ''x_lessthan_3'', Some ''x_lessthan_3'',
          Some ''x_lessthan_4'', Some ''x_lessthan_5'']"
proof -
  have "cutoff_vals [Some 1, Some 2, Some 3, Some 4, Some (5::int)] 4
          = getitem_labels (sort [1, 2, 3, 4, 5]) [2, 3, 4]"
    by (rule cutoff_vals_eval [where n = 5]) (simp_all add: not_na_def cutoff_val_ind_4_5)
  then have cv: "cutoff_vals [Some 1, Some 2, Some 3, Some 4, Some (5::int)] 4 = Inr [3, 4, 5]"
    by (simp add: getitem_labels_def)
  show ?thesis
    by (simp add: float_processer_def cv str_labels_def array_getitem_def
        float_row_def scan_cutoffs.simps str_int_def str_nat_digit)
qed

lemma featurize_columns_example:
  "featurize_columns str_int [''x'', ''c'']
     [(''x'', NumericSeries [Some 1, Some 2, Some 3, Some 4, Some 5]),
      (''c'', ObjectSeries [Some ''a'', Some ''b'', None, Some ''a'', None])] (0, [])
   = Inr (5, [[Some ''x_lessthan_3'', Some ''x_lessthan_3'', Some ''x_lessthan_3'',
               Some ''x_lessthan_4'', Some ''x_lessthan_5''],
              [Some ''c_is_a'', Some ''c_is_b'', None, Some ''c_is_a'', None]])"
proof -
  have nb: "\<not> only_boolean [Some 1, Some 2, Some 3, Some 4, Some (5::int)]"
    by (simp add: only_boolean_def unique_def not_na_def)
  show ?thesis
    by (simp add: nb float_processer_1_to_5 cat_rows setitem_def)
qed

lemma distinct_count_list_le: "distinct xs \<Longrightarrow> count_list xs x \<le> 1"
  by (induction xs) auto

lemma featurize_columns_total:
  assumes "\<forall>c\<in>set cols. count_list names (fst c) \<le> 1"
    and "\<forall>c\<in>set cols. \<exists>out. list_featurize_series str (snd c) (fst c) 4 1 ''return_na'' = Inr out"
  shows "\<exists>df_out'. featurize_columns str names cols df_out = Inr df_out'"
  using assms
proof (induction cols arbitrary: df_out)
  case Nil
  then show ?case by simp
next
  case (Cons c cols)
  from Cons.prems(2) obtain out where
    "list_featurize_series str (snd c) (fst c) 4 1 ''return_na'' = Inr out"
    by auto
  moreover have "\<not> 1 < count_list names (fst c)"
    using Cons.prems(1) by auto
  ultimately show ?case
    using Cons.IH [of "setitem df_out out"] Cons.prems by simp
qed

lemma store_rows_total:
  "\<forall>i\<in>set rows. i < fst df_out \<Longrightarrow> \<exists>store. store_rows df_out rows = Inr store"
  by (induction rows) (auto simp: writing_vals_def)

lemma list_featurize_df_total:
  assumes "wellformed df" and "distinct (map fst (columns df))"
    and "columns df \<noteq> [] \<or> nrows df = 0"
    and "\<forall>c\<in>set (columns df).
           \<exists>out. list_featurize_series str (snd c) (fst c) 4 1 ''return_na'' = Inr out"
  shows "\<exists>store. list_featurize_df str df = Inr store"
proof -
  have "\<forall>c\<in>set (columns df). count_list (map fst (columns df)) (fst c) \<le> 1"
    using distinct_count_list_le [OF assms(2)] by blast
  from featurize_columns_total [OF this assms(4)] obtain df_out where
    f: "featurize_columns str (map fst (columns df)) (columns df) (0, []) = Inr df_out"
    by blast
  have shape: "\<forall>c\<in>set (columns df). shape0 (snd c) = nrows df"
    using assms(1) by (simp add: wellformed_def list_all_iff)
  from featurize_columns_Inr [OF f shape]
  have "fst df_out = (if columns df = [] then 0 else nrows df)"
    by simp
  then have "\<forall>i\<in>set [0..<nrows df]. i < fst df_out"
    using assms(3) by auto
  from store_rows_total [OF this] f show ?thesis
    by (simp add: list_featurize_df_def)
qed
lemma list_featurize_df_Inr:
  assumes "wellformed df" and "list_featurize_df str df = Inr store"
  shows "length store = nrows df \<and>
         (\<forall>c\<in>set (columns df).
            \<exists>out. list_featurize_series str (snd c) (fst c) 4 1 ''return_na'' = Inr out \<and>
                  length out = nrows df) \<and>
         (\<forall>i<nrows df.
            store ! i =
              map the (filter (\<lambda>v. v \<noteq> None)
                (map (\<lambda>c. projr (list_featurize_series str (snd c) (fst c) 4 1 ''return_na'') ! i)
                   (columns df))) \<and>
            length (store ! i) \<le> length (columns df))"
proof -
  from assms(2) obtain df_out where
    f: "featurize_columns str (map fst (columns df)) (columns df) (0, []) = Inr df_out"
    and s: "store_rows df_out [0..<nrows df] = Inr store"
    by (auto simp: list_featurize_df_def split: sum.splits)
  have shape: "\<forall>c\<in>set (columns df). shape0 (snd c) = nrows df"
    using assms(1) by (simp add: wellformed_def list_all_iff)
  from featurize_columns_Inr [OF f shape]
  have outs: "snd df_out = map (\<lambda>c. projr (list_featurize_series str (snd c) (fst c) 4 1 ''return_na'')) (columns df)"
    and cols: "\<forall>c\<in>set (columns df).
            \<exists>out. list_featurize_series str (snd c) (fst c) 4 1 ''return_na'' = Inr out \<and>
                  length out = nrows df"
    by simp_all
  from store_rows_Inr [OF s]
  have len: "length store = nrows df"
    and rows: "\<forall>k<nrows df. writing_vals df_out k = Inr (store ! k)"
    by simp_all
  have row: "store ! i =
              map the (filter (\<lambda>v. v \<noteq> None)
                (map (\<lambda>c. projr (list_featurize_series str (snd c) (fst c) 4 1 ''return_na'') ! i)
                   (columns df)))" if "i < nrows df" for i
    using rows [rule_format, OF that]
    by (auto simp: writing_vals_def outs comp_def split: if_splits)
  have "length (store ! i) \<le> length (columns df)" if "i < nrows df" for i
    unfolding row [OF that]
    using length_filter_le [of "\<lambda>v. v \<noteq> None"
        "map (\<lambda>c. projr (list_featurize_series str (snd c) (fst c) 4 1 ''return_na'') ! i) (columns df)"]
    by simp
  with len cols row show ?thesis by blast
qed

text \<open>
  C9 as the code has it. A frame with three rows and no column is well-formed and its
  column loop raises nothing (there is no column), yet no store is produced:
  \<^verbatim>\<open>df_out\<close> is still the empty frame, and \<^verbatim>\<open>df_out.loc[0]\<close> of line 230 raises
  \<^verbatim>\<open>KeyError\<close>.
\<close>

theorem list_featurize_df_no_columns_counterexample:
  "wellformed (\<lparr>nrows = 3, columns = []\<rparr> :: int dataframe) \<and>
   featurize_columns str_int [] ([] :: (string \<times> int series) list) (0, []) = Inr (0, []) \<and>
   list_featurize_df str_int \<lparr>nrows = 3, columns = []\<rparr> = Inl KeyError"
proof -
  have "[0..<3] = [0, 1, 2]"
    by (simp add: upt_rec)
  then show ?thesis
    by (simp add: wellformed_def list_featurize_df_def writing_vals_def)
qed

text \<open>
  C9, amended. Take a well-formed frame (with the default row index of the data model)
  that has a column or has no row, and on which the column loop of lines 223 to 225
  raises nothing. Then the body of the row assembler returns a store; every column was
  labelled with one entry per row; the store has one itemset per row of the frame, in
  row order; and the itemset of row \<open>i\<close> is the list of the columns' entries of row
  \<open>i\<close>, in column order, without the NaN entries: at most one label from each column.
  By \<open>featurize_columns_total\<close> the column loop raises nothing when the column names
  are distinct and every column is labelled without error.
\<close>

theorem list_featurize_df_store:
  assumes "wellformed df"
    and "featurize_columns str (map fst (columns df)) (columns df) (0, []) = Inr df_out"
    and "columns df \<noteq> [] \<or> nrows df = 0"
  shows "\<exists>store. list_featurize_df str df = Inr store \<and>
           length store = nrows df \<and>
           (\<forall>c\<in>set (columns df).
              \<exists>out. list_featurize_series str (snd c) (fst c) 4 1 ''return_na'' = Inr out \<and>
                    length out = nrows df) \<and>
           (\<forall>i<nrows df.
              store ! i =
                map the (filter (\<lambda>v. v \<noteq> None)
                  (map (\<lambda>c. projr (list_featurize_series str (snd c) (fst c) 4 1 ''return_na'') ! i)
                     (columns df))) \<and>
              length (store ! i) \<le> length (columns df))"
proof -
  have shape: "\<forall>c\<in>set (columns df). shape0 (snd c) = nrows df"
    using assms(1) by (simp add: wellformed_def list_all_iff)
  from featurize_columns_Inr [OF assms(2) shape]
  have "fst df_out = (if columns df = [] then 0 else nrows df)"
    by simp
  then have "\<forall>i\<in>set [0..<nrows df]. i < fst df_out"
    using assms(3) by auto
  from store_rows_total [OF this] obtain store where
    "store_rows df_out [0..<nrows df] = Inr store"
    by blast
  then have s: "list_featurize_df str df = Inr store"
    using assms(2) by (simp add: list_featurize_df_def)
  from list_featurize_df_Inr [OF assms(1) s] s show ?thesis
    by blast
qed

theorem list_featurize_df_store_witness:
  "wellformed
     \<lparr>nrows = 5,
      columns = [(''x'', NumericSeries [Some 1, Some 2, Some 3, Some 4, Some (5::int)]),
                 (''c'', ObjectSeries [Some ''a'', Some ''b'', None, Some ''a'', None])]\<rparr> \<and>
   featurize_columns str_int [''x'', ''c'']
     [(''x'', NumericSeries [Some 1, Some 2, Some 3, Some 4, Some 5]),
      (''c'', ObjectSeries [Some ''a'', Some ''b'', None, Some ''a'', None])] (0, [])
   = Inr (5, [[Some ''x_lessthan_3'', Some ''x_lessthan_3'', Some ''x_lessthan_3'',
               Some ''x_lessthan_4'', Some ''x_lessthan_5''],
              [Some ''c_is_a'', Some ''c_is_b'', None, Some ''c_is_a'', None]]) \<and>
   list_featurize_df str_int
     \<lparr>nrows = 5,
      columns = [(''x'', NumericSeries [Some 1, Some 2, Some 3, Some 4, Some 5]),
                 (''c'', ObjectSeries [Some ''a'', Some ''b'', None, Some ''a'', None])]\<rparr>
   = Inr [[''x_lessthan_3'', ''c_is_a''], [''x_lessthan_3'', ''c_is_b''], [''x_lessthan_3''],
          [''x_lessthan_4'', ''c_is_a''], [''x_lessthan_5'']]"
proof -
  define df where "df =
     \<lparr>nrows = 5,
      columns = [(''x'', NumericSeries [Some 1, Some 2, Some 3, Some 4, Some (5::int)]),
                 (''c'', ObjectSeries [Some ''a'', Some ''b'', None, Some ''a'', None])]\<rparr>"
  have wf: "wellformed df"
    by (simp add: wellformed_def df_def)
  have fc: "featurize_columns str_int (map fst (columns df)) (columns df) (0, [])
     = Inr (5, [[Some ''x_lessthan_3'', Some ''x_lessthan_3'', Some ''x_lessthan_3'',
               Some ''x_lessthan_4'', Some ''x_lessthan_5''],
              [Some ''c_is_a'', Some ''c_is_b'', None, Some ''c_is_a'', None]])"
    using featurize_columns_example by (simp add: df_def)
  have ne: "columns df \<noteq> [] \<or> nrows df = 0"
    by (simp add: df_def)
  from list_featurize_df_store [OF wf fc ne]
  obtain store where s: "list_featurize_df str_int df = Inr store" and len: "length store = nrows df"
    by blast
  have rows: "[0..<5] = [0, 1, 2, 3, 4]"
    by (simp add: upt_rec)
  have "list_featurize_df str_int df
     = Inr [[''x_lessthan_3'', ''c_is_a''], [''x_lessthan_3'', ''c_is_b''], [''x_lessthan_3''],
          [''x_lessthan_4'', ''c_is_a''], [''x_lessthan_5'']]"
    using fc by (simp add: list_featurize_df_def df_def writing_vals_def rows)
  with wf fc s show ?thesis
    by (simp add: df_def)
qed

end
